(* ===== verification/Prelude.thy ===== *)
theory Prelude
  imports Main "HOL-Library.Sublist"
begin

text \<open>
  Shared vocabulary of the development: the exceptions the service can meet, results that
  carry an exception or a value, and the relational-table operations that the SQL of the
  code uses (conditional bulk update, lookup by key, row count, integer primary keys,
  partial unique indexes).  The named collections gather the facts that the component
  theories hand to the simplifier.
\<close>

named_theorems table_simps "rewrite rules for table operations"
named_theorems frame_simps "what an operation leaves alone"
named_theorems inv_intros "preservation of invariants"

section \<open>Exceptions and results\<close>

datatype py_exc =
    OverflowError
  | TypeError
  | ValueError
  | IndexError
  | RecursionError
  | IntegrityError
  | BindError
  | DatabaseError
  | TransportException
  | AttributeError
  | KeyError

type_synonym 'a res = "py_exc + 'a"

text \<open>Datetimes are integers of microseconds; durations in seconds are rationals.\<close>

type_synonym time = int

section \<open>Tables\<close>

text \<open>\<open>UPDATE t SET f WHERE P\<close> and its row count.\<close>

definition update_where :: "('a \<Rightarrow> bool) \<Rightarrow> ('a \<Rightarrow> 'a) \<Rightarrow> 'a list \<Rightarrow> 'a list" where
  "update_where P f xs = map (\<lambda>x. if P x then f x else x) xs"

definition count_where :: "('a \<Rightarrow> bool) \<Rightarrow> 'a list \<Rightarrow> nat" where
  "count_where P xs = length (filter P xs)"

text \<open>Lookup by a key column.\<close>

definition find_by :: "('a \<Rightarrow> 'k) \<Rightarrow> 'k \<Rightarrow> 'a list \<Rightarrow> 'a option" where
  "find_by key k xs = find (\<lambda>x. key x = k) xs"

text \<open>\<open>UPDATE t SET row WHERE pk = row.pk\<close>, the flush of one changed object.\<close>

definition replace_by :: "('a \<Rightarrow> 'k) \<Rightarrow> 'a \<Rightarrow> 'a list \<Rightarrow> 'a list" where
  "replace_by key y xs = update_where (\<lambda>x. key x = key y) (\<lambda>_. y) xs"

text \<open>The integer primary key of a new row: one more than the largest in the table.\<close>

definition next_pk :: "nat list \<Rightarrow> nat" where
  "next_pk ks = Suc (foldr max ks 0)"

text \<open>A (partial) unique index: among the rows that satisfy \<open>P\<close>, the key is unique.\<close>

definition unique_index :: "('a \<Rightarrow> bool) \<Rightarrow> ('a \<Rightarrow> 'k) \<Rightarrow> 'a list \<Rightarrow> bool" where
  "unique_index P key xs = distinct (map key (filter P xs))"

lemma length_update_where [simp, table_simps]: "length (update_where P f xs) = length xs"
  by (simp add: update_where_def)

lemma update_where_Nil [simp, table_simps]: "update_where P f [] = []"
  by (simp add: update_where_def)

lemma update_where_Cons [table_simps]:
  "update_where P f (x # xs) = (if P x then f x else x) # update_where P f xs"
  by (simp add: update_where_def)

lemma set_update_where [table_simps]:
  "set (update_where P f xs) = f ` {x \<in> set xs. P x} \<union> {x \<in> set xs. \<not> P x}"
  by (auto simp: update_where_def)

lemma in_update_whereE:
  assumes "y \<in> set (update_where P f xs)"
  obtains x where "x \<in> set xs" "P x" "y = f x" | "y \<in> set xs" "\<not> P y"
  using assms by (auto simp: set_update_where)

lemma map_key_update_where [table_simps]:
  "(\<And>x. k (f x) = k x) \<Longrightarrow> map k (update_where P f xs) = map k xs"
  by (simp add: update_where_def)

lemma update_where_none [table_simps]:
  "\<not> (\<exists>x \<in> set xs. P x) \<Longrightarrow> update_where P f xs = xs"
  by (simp add: update_where_def map_idI)

lemma update_where_idem [table_simps]:
  "(\<And>x. P x \<Longrightarrow> \<not> P (f x)) \<Longrightarrow> update_where P g (update_where P f xs) = update_where P f xs"
  by (auto simp: update_where_def)

lemma count_where_zero [table_simps]: "count_where P xs = 0 \<longleftrightarrow> \<not> (\<exists>x \<in> set xs. P x)"
  by (auto simp: count_where_def filter_empty_conv)

lemma count_where_le: "count_where P xs \<le> length xs"
  by (simp add: count_where_def)

lemma count_where_append [simp, table_simps]:
  "count_where P (xs @ ys) = count_where P xs + count_where P ys"
  by (simp add: count_where_def)

lemma count_where_Nil [simp, table_simps]: "count_where P [] = 0"
  by (simp add: count_where_def)

lemma count_where_Cons [table_simps]:
  "count_where P (x # xs) = (if P x then 1 else 0) + count_where P xs"
  by (simp add: count_where_def)

lemma count_where_update_where_out:
  "(\<And>x. P x \<Longrightarrow> \<not> Q x \<and> Q (f x)) \<Longrightarrow>
   count_where Q (update_where P f xs) = count_where Q xs + count_where P xs"
  by (induction xs) (auto simp: table_simps)

lemma length_filter_mono:
  "\<forall>x. P x \<longrightarrow> Q x \<Longrightarrow> length (filter P xs) \<le> length (filter Q xs)"
  by (induction xs) auto

lemma find_by_SomeD: "find_by key k xs = Some x \<Longrightarrow> x \<in> set xs \<and> key x = k"
  by (auto simp: find_by_def find_Some_iff)

lemma find_by_None [table_simps]: "find_by key k xs = None \<longleftrightarrow> k \<notin> key ` set xs"
  by (auto simp: find_by_def find_None_iff)

lemma find_by_distinct [table_simps]:
  assumes "distinct (map key xs)" and "x \<in> set xs"
  shows "find_by key (key x) xs = Some x"
  using assms by (induction xs) (auto simp: find_by_def image_iff)

lemma find_by_iff:
  "distinct (map key xs) \<Longrightarrow> find_by key k xs = Some x \<longleftrightarrow> x \<in> set xs \<and> key x = k"
  by (intro iffI find_by_SomeD) (auto simp: find_by_distinct)

lemma find_by_update_where [table_simps]:
  "(\<And>x. key (f x) = key x) \<Longrightarrow>
   find_by key k (update_where P f xs) =
     map_option (\<lambda>x. if P x then f x else x) (find_by key k xs)"
  by (induction xs) (auto simp: find_by_def update_where_def)

lemma find_by_append:
  "find_by key k (xs @ ys) = (case find_by key k xs of None \<Rightarrow> find_by key k ys | Some x \<Rightarrow> Some x)"
  by (induction xs) (auto simp: find_by_def)

lemma map_key_replace_by [table_simps]: "map key (replace_by key y xs) = map key xs"
  by (simp add: replace_by_def update_where_def)

lemma length_replace_by [simp, table_simps]: "length (replace_by key y xs) = length xs"
  by (simp add: replace_by_def)

lemma set_replace_by:
  "x \<in> set (replace_by key y xs) \<Longrightarrow> x = y \<or> (x \<in> set xs \<and> key x \<noteq> key y)"
  by (auto simp: replace_by_def set_update_where)

lemma find_by_replace_by_same:
  "k \<in> key ` set xs \<Longrightarrow> key y = k \<Longrightarrow> find_by key k (replace_by key y xs) = Some y"
  by (induction xs) (auto simp: find_by_def replace_by_def update_where_def split: if_splits)

lemma find_by_replace_by_other:
  "k \<noteq> key y \<Longrightarrow> find_by key k (replace_by key y xs) = find_by key k xs"
  by (induction xs) (simp_all add: find_by_def replace_by_def update_where_def)

lemma replace_by_twice:
  "key y = key x \<Longrightarrow> replace_by key y (replace_by key x xs) = replace_by key y xs"
  by (simp add: replace_by_def update_where_def)

lemmas find_by_replace_by = find_by_replace_by_same find_by_replace_by_other

lemma foldr_max_ge: "k \<in> set ks \<Longrightarrow> k \<le> foldr max ks (0::nat)"
  by (induction ks) (auto simp: le_max_iff_disj)

lemma next_pk_gt: "k \<in> set ks \<Longrightarrow> k < next_pk ks"
  using foldr_max_ge by (simp add: next_pk_def less_Suc_eq_le)

lemma next_pk_fresh [simp]: "next_pk ks \<notin> set ks"
  using next_pk_gt by blast

lemma next_pk_key_fresh [dest]: "next_pk (map k xs) = k x \<Longrightarrow> x \<in> set xs \<Longrightarrow> False"
  using next_pk_fresh[of "map k xs"] by auto

lemma next_pk_image_fresh [simp]: "next_pk (map k xs) \<notin> k ` set xs"
  by auto

lemma unique_index_append [table_simps]:
  "unique_index P key (xs @ [y]) \<longleftrightarrow>
     unique_index P key xs \<and> (P y \<longrightarrow> (\<forall>x \<in> set xs. P x \<longrightarrow> key y \<noteq> key x))"
  by (auto simp: unique_index_def)

text \<open>
  A bulk update that keeps the key and brings no row into the index keeps the index unique.
\<close>

lemma unique_index_update_where [inv_intros]:
  assumes "unique_index P key xs"
    and "\<And>x. x \<in> set xs \<Longrightarrow> Q x \<Longrightarrow> P (f x) \<Longrightarrow> P x \<and> key (f x) = key x"
  shows "unique_index P key (update_where Q f xs)"
  using assms
proof (induction xs)
  case Nil
  then show ?case by (simp add: unique_index_def)
next
  case (Cons x xs)
  have sub: "key ` set (filter P (update_where Q f xs)) \<subseteq> key ` set (filter P xs)"
    using Cons.prems(2) by (fastforce simp: set_update_where)
  moreover have "unique_index P key (update_where Q f xs)"
    using Cons by (auto simp: unique_index_def split: if_splits)
  ultimately show ?case
    using Cons.prems by (auto simp: unique_index_def update_where_Cons split: if_splits)
qed

lemma unique_index_unique:
  assumes "unique_index P key xs" "distinct xs"
    and "x \<in> set xs" "y \<in> set xs" "P x" "P y" "key x = key y"
  shows "x = y"
  using assms by (auto simp: unique_index_def distinct_map inj_on_def)

text \<open>Writing back one row keeps the index when the new row clashes with no other row.\<close>

lemma unique_index_replace_by:
  assumes "unique_index P key xs" and "distinct (map pk xs)"
    and "P y \<Longrightarrow> \<forall>x \<in> set xs. pk x \<noteq> pk y \<longrightarrow> P x \<longrightarrow> key y \<noteq> key x"
  shows "unique_index P key (replace_by pk y xs)"
  using assms
proof (induction xs)
  case Nil
  then show ?case by (simp add: unique_index_def replace_by_def)
next
  case (Cons x xs)
  have IH: "unique_index P key (replace_by pk y xs)"
    using Cons by (auto simp: unique_index_def split: if_splits)
  show ?case
  proof (cases "pk x = pk y")
    case True
    then have "replace_by pk y xs = xs"
      using Cons.prems(2) by (auto simp: replace_by_def update_where_def image_iff intro!: map_idI)
    moreover have "P y \<Longrightarrow> key y \<notin> key ` set (filter P xs)"
      using Cons.prems(2,3) True by (simp add: image_iff) metis
    moreover have "replace_by pk y (x # xs) = y # replace_by pk y xs"
      using True by (simp add: replace_by_def update_where_Cons)
    ultimately show ?thesis
      using IH by (simp add: unique_index_def)
  next
    case False
    have "P x \<Longrightarrow> key x \<notin> key ` set (filter P (replace_by pk y xs))"
      using Cons.prems False by (fastforce dest!: set_replace_by simp: unique_index_def)
    with False IH show ?thesis
      by (auto simp: unique_index_def replace_by_def update_where_Cons)
  qed
qed

section \<open>Transition systems\<close>

text \<open>The reachable states of a labelled transition system.\<close>

inductive reachable :: "('s \<Rightarrow> bool) \<Rightarrow> ('s \<Rightarrow> 'l \<Rightarrow> 's \<Rightarrow> bool) \<Rightarrow> 's \<Rightarrow> bool"
  for start :: "'s \<Rightarrow> bool" and step :: "'s \<Rightarrow> 'l \<Rightarrow> 's \<Rightarrow> bool" where
  reach_start: "start s \<Longrightarrow> reachable start step s"
| reach_step: "reachable start step s \<Longrightarrow> step s l t \<Longrightarrow> reachable start step t"

text \<open>What a component promises: an invariant that holds at the start and is kept by every step.\<close>

locale invariant_system =
  fixes start :: "'s \<Rightarrow> bool" and step :: "'s \<Rightarrow> 'l \<Rightarrow> 's \<Rightarrow> bool" and inv :: "'s \<Rightarrow> bool"
  assumes inv_start: "start s \<Longrightarrow> inv s"
    and inv_step: "step s l t \<Longrightarrow> inv s \<Longrightarrow> inv t"
begin

lemma reachable_inv: "reachable start step s \<Longrightarrow> inv s"
  by (induction rule: reachable.induct) (auto intro: inv_start inv_step)

lemma reachable_from_inv:
  "reachable (\<lambda>x. x = s) step t \<Longrightarrow> inv s \<Longrightarrow> inv t"
  by (induction rule: reachable.induct) (auto intro: inv_step)

end

end
