(* ===== verification/PyStd.thy ===== *)
theory PyStd
  imports Prelude Complex_Main "HOL-Library.Char_ord"
begin

text \<open>
  The parts of the Python language and standard library that the service uses: \<open>str\<close>
  (strings over the code points 0 to 255, which is what an HTTP header can hold; every
  operation below is exact on them), \<open>float()\<close> on text, \<open>datetime\<close> and
  \<open>timedelta\<close> arithmetic with its overflow checks, values of parsed JSON with Python's
  truthiness and \<open>str()\<close>, and what a text column of SQLite accepts.  Floats are exact
  rationals: binary rounding is not modelled, overflow to infinity and NaN are.
\<close>

section \<open>Strings\<close>

definition code :: "char \<Rightarrow> nat" where
  "code c = of_char c"

definition is_ascii :: "char \<Rightarrow> bool" where
  "is_ascii c \<longleftrightarrow> code c < 128"

definition is_space :: "char \<Rightarrow> bool" where
  "is_space c \<longleftrightarrow> (9 \<le> code c \<and> code c \<le> 13) \<or> (28 \<le> code c \<and> code c \<le> 32)
     \<or> code c = 133 \<or> code c = 160"

definition is_upper :: "char \<Rightarrow> bool" where
  "is_upper c \<longleftrightarrow> (65 \<le> code c \<and> code c \<le> 90)
     \<or> (192 \<le> code c \<and> code c \<le> 222 \<and> code c \<noteq> 215)"

definition lower_char :: "char \<Rightarrow> char" where
  "lower_char c = (if is_upper c then char_of (code c + 32) else c)"

definition lower :: "string \<Rightarrow> string" where
  "lower s = map lower_char s"

definition lstrip :: "string \<Rightarrow> string" where
  "lstrip s = dropWhile is_space s"

definition strip :: "string \<Rightarrow> string" where
  "strip s = rev (lstrip (rev (lstrip s)))"

definition rstrip_slash :: "string \<Rightarrow> string" where
  "rstrip_slash s = rev (dropWhile (\<lambda>c. c = CHR ''/'') (rev s))"

fun startswith :: "string \<Rightarrow> string \<Rightarrow> bool" where
  "startswith s [] = True"
| "startswith [] (p # ps) = False"
| "startswith (c # s) (p # ps) = (c = p \<and> startswith s ps)"

text \<open>The operator \<open>k in s\<close> on strings.\<close>

fun contains :: "string \<Rightarrow> string \<Rightarrow> bool" where
  "contains [] k = (k = [])"
| "contains (c # s) k = (startswith (c # s) k \<or> contains s k)"

definition utf8_char :: "char \<Rightarrow> string" where
  "utf8_char c = (if is_ascii c then [c]
     else [char_of (192 + code c div 64), char_of (128 + code c mod 64)])"

definition encode :: "string \<Rightarrow> string" where
  "encode s = concat (map utf8_char s)"

definition digit_char :: "nat \<Rightarrow> char" where
  "digit_char d = char_of (48 + d)"

fun nat_str :: "nat \<Rightarrow> string" where
  "nat_str n = (if n < 10 then [digit_char n] else nat_str (n div 10) @ [digit_char (n mod 10)])"

declare nat_str.simps [simp del]

definition int_str :: "int \<Rightarrow> string" where
  "int_str i = (if i < 0 then ''-'' @ nat_str (nat (- i)) else nat_str (nat i))"

definition is_digit :: "char \<Rightarrow> bool" where
  "is_digit c \<longleftrightarrow> 48 \<le> code c \<and> code c \<le> 57"

definition digits_val :: "string \<Rightarrow> nat" where
  "digits_val s = foldl (\<lambda>a c. 10 * a + (code c - 48)) 0 s"

subsection \<open>Facts on strings\<close>

lemma code_char_of [simp]: "code (char_of (n::nat)) = n mod 256"
  by (simp add: code_def)

lemma code_less [simp]: "code c < 256"
  by (simp add: code_def)

lemma code_inj: "code c = code d \<Longrightarrow> c = d"
  by (simp add: code_def)

lemma code_lower_char: "code (lower_char c) = (if is_upper c then code c + 32 else code c)"
  by (auto simp: lower_char_def is_upper_def)

lemma lower_char_idem [simp]: "lower_char (lower_char c) = lower_char c"
  by (rule code_inj) (auto simp: code_lower_char is_upper_def)

lemma is_ascii_lower_char [simp]: "is_ascii (lower_char c) = is_ascii c"
  by (auto simp: is_ascii_def code_lower_char is_upper_def)

lemma is_space_lower_char [simp]: "is_space (lower_char c) = is_space c"
  by (auto simp: is_space_def code_lower_char is_upper_def)

lemma lower_Nil [simp]: "lower [] = []"
  by (simp add: lower_def)

lemma lower_idem [simp]: "lower (lower s) = lower s"
  by (simp add: lower_def)

lemma lower_eq_Nil [simp]: "lower s = [] \<longleftrightarrow> s = []"
  by (simp add: lower_def)

lemma length_lower [simp]: "length (lower s) = length s"
  by (simp add: lower_def)

lemma lower_append [simp]: "lower (s @ t) = lower s @ lower t"
  by (simp add: lower_def)

lemma lower_lstrip: "lower (lstrip s) = lstrip (lower s)"
  by (induction s) (auto simp: lower_def lstrip_def)

lemma lower_rev: "lower (rev s) = rev (lower s)"
  by (simp add: lower_def rev_map)

lemma lower_strip: "lower (strip s) = strip (lower s)"
  by (simp add: strip_def lower_lstrip lower_rev)

lemma lstrip_hd: "lstrip s \<noteq> [] \<Longrightarrow> \<not> is_space (hd (lstrip s))"
  by (simp add: lstrip_def hd_dropWhile)

lemma lstrip_id: "s = [] \<or> \<not> is_space (hd s) \<Longrightarrow> lstrip s = s"
  by (cases s) (auto simp: lstrip_def)

lemma last_lstrip: "lstrip s \<noteq> [] \<Longrightarrow> last (lstrip s) = last s"
  by (induction s) (auto simp: lstrip_def split: if_splits)

lemma strip_ends: "strip s \<noteq> [] \<Longrightarrow> \<not> is_space (hd (strip s)) \<and> \<not> is_space (last (strip s))"
proof -
  assume ne: "strip s \<noteq> []"
  define t where "t = lstrip (rev (lstrip s))"
  have t: "t \<noteq> []" "strip s = rev t" using ne by (auto simp: strip_def t_def)
  have "lstrip s \<noteq> []" using t(1) by (intro notI) (simp add: t_def, simp add: lstrip_def)
  moreover have "last t = hd (lstrip s)"
    using t(1) last_lstrip[of "rev (lstrip s)"] \<open>lstrip s \<noteq> []\<close> by (simp add: t_def last_rev)
  ultimately show ?thesis
    using t lstrip_hd[of s] lstrip_hd[of "rev (lstrip s)"]
    by (simp add: t_def hd_rev last_rev)
qed

lemma strip_id: "s = [] \<or> (\<not> is_space (hd s) \<and> \<not> is_space (last s)) \<Longrightarrow> strip s = s"
  by (auto simp: strip_def lstrip_id hd_rev)

lemma strip_idem [simp]: "strip (strip s) = strip s"
  using strip_ends strip_id by blast

lemma startswith_iff: "startswith s p \<longleftrightarrow> (\<exists>t. s = p @ t)"
  by (induction s p rule: startswith.induct) auto

lemma contains_iff_sublist: "contains s k \<longleftrightarrow> sublist k s"
proof (induction s)
  case (Cons c s)
  then show ?case
    by (auto simp: startswith_iff sublist_Cons_right prefix_def)
qed simp

lemma contains_Nil [simp]: "contains s []"
  by (cases s) auto

lemma code_digit_char: "d < 10 \<Longrightarrow> code (digit_char d) = 48 + d"
  by (simp add: digit_char_def)

lemma nat_str_digits: "c \<in> set (nat_str n) \<Longrightarrow> is_digit c"
proof (induction n rule: nat_str.induct)
  case (1 n)
  then show ?case
    by (cases "n < 10") (auto simp: nat_str.simps[of n] is_digit_def code_digit_char)
qed

lemma nat_str_nonempty [simp]: "nat_str n \<noteq> []"
  by (subst nat_str.simps) simp

lemma digits_val_nat_str [simp]: "digits_val (nat_str n) = n"
proof (induction n rule: nat_str.induct)
  case (1 n)
  then show ?case
    by (cases "n < 10") (auto simp: nat_str.simps[of n] digits_val_def code_digit_char)
qed

lemma nat_str_inj: "nat_str m = nat_str n \<longleftrightarrow> m = n"
  using digits_val_nat_str by metis

section \<open>Floats\<close>

datatype pyfloat = FNum rat | FInf | FNegInf | FNan

definition c_space :: "char \<Rightarrow> bool" where
  "c_space c \<longleftrightarrow> (9 \<le> code c \<and> code c \<le> 13) \<or> code c = 32"

definition to_float :: "rat \<Rightarrow> pyfloat" where
  "to_float r = (if r \<ge> 2 ^ 1024 - 2 ^ 970 then FInf
                 else if r \<le> - (2 ^ 1024 - 2 ^ 970) then FNegInf else FNum r)"

text \<open>Underscores are allowed between two digits only.\<close>

fun drop_underscores :: "char \<Rightarrow> string \<Rightarrow> string option" where
  "drop_underscores prev [] = (if prev = CHR ''_'' then None else Some [])"
| "drop_underscores prev (c # cs) =
     (if c = CHR ''_'' then (if is_digit prev then drop_underscores c cs else None)
      else if prev = CHR ''_'' \<and> \<not> is_digit c then None
      else map_option ((#) c) (drop_underscores c cs))"

definition parse_digits :: "string \<Rightarrow> nat option" where
  "parse_digits s = (if s \<noteq> [] \<and> list_all is_digit s then Some (digits_val s) else None)"

definition parse_exponent :: "string \<Rightarrow> int option" where
  "parse_exponent s = (case s of [] \<Rightarrow> Some 0
     | c # r \<Rightarrow> if c \<noteq> CHR ''e'' \<and> c \<noteq> CHR ''E'' then None
        else (case r of
                [] \<Rightarrow> None
              | d # r' \<Rightarrow>
                  if d = CHR ''-'' then map_option (\<lambda>n. - int n) (parse_digits r')
                  else if d = CHR ''+'' then map_option int (parse_digits r')
                  else map_option int (parse_digits r)))"

definition pow10 :: "int \<Rightarrow> rat" where
  "pow10 e = (if e \<ge> 0 then 10 ^ nat e else 1 / 10 ^ nat (- e))"

definition parse_unsigned :: "string \<Rightarrow> rat option" where
  "parse_unsigned s =
     (let ip = takeWhile is_digit s; r = dropWhile is_digit s;
          dot = (r \<noteq> [] \<and> hd r = CHR ''.'');
          fp = (if dot then takeWhile is_digit (tl r) else []);
          r2 = (if dot then dropWhile is_digit (tl r) else r)
      in if ip = [] \<and> fp = [] then None
         else map_option (\<lambda>e. of_nat (digits_val (ip @ fp)) * pow10 (e - int (length fp)))
                (parse_exponent r2))"

definition parse_magnitude :: "string \<Rightarrow> bool \<Rightarrow> pyfloat option" where
  "parse_magnitude s neg =
     (if lower s = ''inf'' \<or> lower s = ''infinity'' then Some (if neg then FNegInf else FInf)
      else if lower s = ''nan'' then Some FNan
      else map_option (\<lambda>r. to_float (if neg then - r else r)) (parse_unsigned s))"

definition c_strip :: "string \<Rightarrow> string" where
  "c_strip s = rev (dropWhile c_space (rev (dropWhile c_space s)))"

definition transform_spaces :: "string \<Rightarrow> string" where
  "transform_spaces s = (if list_all is_ascii s then s
     else map (\<lambda>c. if is_ascii c then c else if is_space c then CHR '' '' else CHR ''?'') s)"

text \<open>\<open>float(s)\<close>; \<open>None\<close> is \<open>ValueError\<close>.\<close>

definition py_float :: "string \<Rightarrow> pyfloat option" where
  "py_float s =
     (case drop_underscores (char_of (0::nat)) (c_strip (transform_spaces s)) of
        None \<Rightarrow> None
      | Some t \<Rightarrow> (case t of [] \<Rightarrow> None
          | c # r \<Rightarrow> if c = CHR ''-'' then parse_magnitude r True
                     else if c = CHR ''+'' then parse_magnitude r False
                     else parse_magnitude t False))"

text \<open>\<open>max(0.0, x)\<close>: the second argument wins only when it is greater.\<close>

definition max_zero :: "pyfloat \<Rightarrow> pyfloat" where
  "max_zero x = (case x of FNum r \<Rightarrow> FNum (max 0 r) | FInf \<Rightarrow> FInf
                 | FNegInf \<Rightarrow> FNum 0 | FNan \<Rightarrow> FNum 0)"

section \<open>Datetimes\<close>

definition max_time :: time where
  "max_time = 315537897600 * 1000000"

definition round_half_even :: "rat \<Rightarrow> int" where
  "round_half_even x =
     (let f = \<lfloor>x\<rfloor>; d = x - of_int f
      in if d < 1 / 2 then f else if d > 1 / 2 then f + 1 else if even f then f else f + 1)"

text \<open>\<open>timedelta(seconds=x)\<close>, in microseconds.\<close>

definition timedelta :: "rat \<Rightarrow> time res" where
  "timedelta x = (let us = round_half_even (x * 1000000)
     in if \<bar>us div 86400000000\<bar> > 999999999 then Inl OverflowError else Inr us)"

definition in_time_range :: "time \<Rightarrow> bool" where
  "in_time_range t \<longleftrightarrow> 0 \<le> t \<and> t < max_time"

definition add_time :: "time \<Rightarrow> time \<Rightarrow> time res" where
  "add_time t d = (if in_time_range (t + d) then Inr (t + d) else Inl OverflowError)"

definition plus_seconds :: "time \<Rightarrow> rat \<Rightarrow> time res" where
  "plus_seconds t x = (case timedelta x of Inl e \<Rightarrow> Inl e | Inr d \<Rightarrow> add_time t d)"

definition minus_seconds :: "time \<Rightarrow> rat \<Rightarrow> time res" where
  "minus_seconds t x = (case timedelta x of Inl e \<Rightarrow> Inl e | Inr d \<Rightarrow> add_time t (- d))"

lemma round_half_even_bounds:
  "of_int (round_half_even x) \<le> x + 1 / 2" "x - 1 / 2 \<le> of_int (round_half_even x)"
  by (auto simp: round_half_even_def Let_def) (linarith | simp add: field_simps)+

lemma round_half_even_nonneg: "0 \<le> x \<Longrightarrow> 0 \<le> round_half_even x"
  by (auto simp: round_half_even_def Let_def)

lemma timedelta_nonneg: "0 \<le> x \<Longrightarrow> timedelta x = Inr d \<Longrightarrow> 0 \<le> d"
  by (auto simp: timedelta_def Let_def round_half_even_nonneg split: if_splits)

lemma plus_seconds_ge: "0 \<le> x \<Longrightarrow> plus_seconds t x = Inr t' \<Longrightarrow> t \<le> t'"
  by (auto simp: plus_seconds_def add_time_def timedelta_nonneg split: sum.splits if_splits)

lemma round_half_even_le: "x \<le> of_int n \<Longrightarrow> round_half_even x \<le> n"
proof -
  assume "x \<le> of_int n"
  then have "of_int (round_half_even x) \<le> (of_int n + 1 / 2 :: rat)"
    using round_half_even_bounds(1)[of x] by linarith
  then show ?thesis by linarith
qed

text \<open>A delay of at most \<open>b\<close> seconds that stays before the year 10000 never overflows.\<close>

lemma plus_seconds_total:
  assumes "0 \<le> x" "x \<le> of_int b" "0 \<le> now" "now + b * 1000000 < max_time"
  shows "\<exists>t. plus_seconds now x = Inr t \<and> now \<le> t \<and> t \<le> now + b * 1000000"
proof -
  define us where "us = round_half_even (x * 1000000)"
  have "0 \<le> us" using assms(1) by (simp add: us_def round_half_even_nonneg)
  moreover have "us \<le> b * 1000000"
    unfolding us_def by (rule round_half_even_le) (use assms(2) in simp)
  moreover have "us div 86400000000 \<le> 999999999"
    using calculation assms(3,4) by (simp add: max_time_def)
  moreover have "0 \<le> us div 86400000000"
    using \<open>0 \<le> us\<close> by simp
  ultimately have "plus_seconds now x = Inr (now + us)"
    using assms(3,4)
    by (auto simp: plus_seconds_def timedelta_def Let_def add_time_def in_time_range_def
        simp flip: us_def)
  with \<open>0 \<le> us\<close> \<open>us \<le> b * 1000000\<close> show ?thesis by auto
qed

section \<open>JSON values\<close>

text \<open>
  What \<open>json.loads\<close> returns.  A float is named by its text; an object is its list of
  items, looked up like a \<open>dict\<close>.
\<close>

datatype json = JNull | JBool bool | JInt int | JFloat string | JStr string
  | JArr "json list" | JObj "(string \<times> json) list"

fun truthy :: "json \<Rightarrow> bool" where
  "truthy JNull = False"
| "truthy (JBool b) = b"
| "truthy (JInt i) = (i \<noteq> 0)"
| "truthy (JFloat r) = (r \<noteq> ''0.0'' \<and> r \<noteq> ''-0.0'')"
| "truthy (JStr s) = (s \<noteq> [])"
| "truthy (JArr xs) = (xs \<noteq> [])"
| "truthy (JObj kvs) = (kvs \<noteq> [])"

text \<open>\<open>a or b\<close>, \<open>d.get(k, default)\<close>, \<open>d.get(k)\<close>.\<close>

definition py_or :: "json \<Rightarrow> json \<Rightarrow> json" where
  "py_or a b = (if truthy a then a else b)"

definition dict_get_default :: "(string \<times> json) list \<Rightarrow> string \<Rightarrow> json \<Rightarrow> json" where
  "dict_get_default d k dflt = (case map_of d k of Some v \<Rightarrow> v | None \<Rightarrow> dflt)"

definition dict_get :: "(string \<times> json) list \<Rightarrow> string \<Rightarrow> json" where
  "dict_get d k = dict_get_default d k JNull"

text \<open>\<open>repr\<close> of a string: the quoting rules of CPython.\<close>

definition hex_digit :: "nat \<Rightarrow> char" where
  "hex_digit d = (if d < 10 then char_of (48 + d) else char_of (87 + d))"

definition repr_char :: "char \<Rightarrow> char \<Rightarrow> string" where
  "repr_char q c =
     (let n = code c; bs = char_of (92::nat) in
      if c = q \<or> n = 92 then [bs, c]
      else if n = 10 then [bs, CHR ''n'']
      else if n = 13 then [bs, CHR ''r'']
      else if n = 9 then [bs, CHR ''t'']
      else if n < 32 \<or> (127 \<le> n \<and> n \<le> 160) \<or> n = 173
        then [bs, CHR ''x'', hex_digit (n div 16), hex_digit (n mod 16)]
      else [c])"

definition repr_str :: "string \<Rightarrow> string" where
  "repr_str s =
     (let sq = char_of (39::nat); dq = char_of (34::nat);
          q = (if sq \<in> set s \<and> dq \<notin> set s then dq else sq)
      in [q] @ concat (map (repr_char q) s) @ [q])"

definition join_comma :: "string list \<Rightarrow> string" where
  "join_comma xs = (case xs of [] \<Rightarrow> [] | y # ys \<Rightarrow> y @ concat (map (\<lambda>z. '', '' @ z) ys))"

fun py_repr :: "json \<Rightarrow> string" where
  "py_repr JNull = ''None''"
| "py_repr (JBool b) = (if b then ''True'' else ''False'')"
| "py_repr (JInt i) = int_str i"
| "py_repr (JFloat r) = r"
| "py_repr (JStr s) = repr_str s"
| "py_repr (JArr xs) = ''['' @ join_comma (map py_repr xs) @ '']''"
| "py_repr (JObj kvs) =
     ''{'' @ join_comma (map (\<lambda>kv. repr_str (fst kv) @ '': '' @ py_repr (snd kv)) kvs) @ ''}''"

text \<open>\<open>str(v)\<close>, as an f-string formats it.\<close>

definition py_str :: "json \<Rightarrow> string" where
  "py_str v = (case v of JStr s \<Rightarrow> s | _ \<Rightarrow> py_repr v)"

text \<open>
  Binding a Python value to a text column (\<open>sqlite3\<close>): \<open>None\<close> is NULL, numbers are
  stored as their text, an integer beyond 64 bits overflows, a list or a dict is refused.
\<close>

definition bind_text :: "json \<Rightarrow> string option res" where
  "bind_text v = (case v of
       JNull \<Rightarrow> Inr None
     | JBool b \<Rightarrow> Inr (Some (if b then ''1'' else ''0''))
     | JInt i \<Rightarrow> if - (2 ^ 63) \<le> i \<and> i < 2 ^ 63 then Inr (Some (int_str i))
                 else Inl OverflowError
     | JFloat r \<Rightarrow> Inr (Some r)
     | JStr s \<Rightarrow> Inr (Some s)
     | JArr _ \<Rightarrow> Inl BindError
     | JObj _ \<Rightarrow> Inl BindError)"

text \<open>\<open>v[:n]\<close>: strings and lists have slices, nothing else has.\<close>

definition py_slice :: "nat \<Rightarrow> json \<Rightarrow> json res" where
  "py_slice n v = (case v of JStr s \<Rightarrow> Inr (JStr (take n s))
     | JArr xs \<Rightarrow> Inr (JArr (take n xs)) | _ \<Rightarrow> Inl TypeError)"

lemma py_or_truthy [simp]: "truthy a \<Longrightarrow> py_or a b = a"
  by (simp add: py_or_def)

lemma py_or_falsy [simp]: "\<not> truthy a \<Longrightarrow> py_or a b = b"
  by (simp add: py_or_def)

end
