(* ===== verification/Config.thy ===== *)
theory Config
  imports PyStd
begin

text \<open>
  \<^verbatim>\<open>app/config.py\<close>: the settings object, its string validators and the secret the
  webhook signature is checked with.  Reading the environment, the \<open>.env\<close> file and the
  \<open>lru_cache\<close> around \<open>get_settings\<close> are outside the model: every operation takes the
  settings as an argument.
\<close>

record settings =
  pseudogram_base_url :: string
  pseudogram_api_key :: string
  pseudogram_timeout_seconds :: rat
  database_url :: string
  verify_webhook_signature :: bool
  webhook_signing_secret :: string
  max_webhook_body_bytes :: int
  max_dm_attempts :: int
  max_delivery_attempts :: int
  retry_base_seconds :: rat
  retry_jitter_ratio :: rat
  retry_max_backoff_seconds :: rat
  auth_error_pause_seconds :: rat
  enable_workers :: bool
  worker_poll_interval_seconds :: rat
  event_poll_interval_seconds :: rat
  delivery_poll_interval_seconds :: rat
  sending_stale_seconds :: rat
  send_rate_limit_max_calls :: int
  send_rate_limit_window_seconds :: rat
  send_rate_limit_safety_seconds :: rat
  count_duplicate_events_as_blocked :: bool
  log_level :: string

definition default_settings :: settings where
  "default_settings = \<lparr>
     pseudogram_base_url = ''https://pseudogram-api.onrender.com'',
     pseudogram_api_key = '''',
     pseudogram_timeout_seconds = 15,
     database_url = ''sqlite:///./linkplease.db'',
     verify_webhook_signature = True,
     webhook_signing_secret = '''',
     max_webhook_body_bytes = 65536,
     max_dm_attempts = 5,
     max_delivery_attempts = 5,
     retry_base_seconds = 1,
     retry_jitter_ratio = 1 / 4,
     retry_max_backoff_seconds = 300,
     auth_error_pause_seconds = 60,
     enable_workers = True,
     worker_poll_interval_seconds = 1,
     event_poll_interval_seconds = 1 / 5,
     delivery_poll_interval_seconds = 5,
     sending_stale_seconds = 120,
     send_rate_limit_max_calls = 10,
     send_rate_limit_window_seconds = 60,
     send_rate_limit_safety_seconds = 1 / 2,
     count_duplicate_events_as_blocked = False,
     log_level = ''INFO'' \<rparr>"

text \<open>The \<open>mode="after"\<close> validators: four string settings are stripped on load.\<close>

definition strip_settings :: "settings \<Rightarrow> settings" where
  "strip_settings s = s\<lparr>
     pseudogram_api_key := strip (pseudogram_api_key s),
     webhook_signing_secret := strip (webhook_signing_secret s),
     pseudogram_base_url := strip (pseudogram_base_url s),
     database_url := strip (database_url s)\<rparr>"

definition signing_secret :: "settings \<Rightarrow> string" where
  "signing_secret s =
     (if webhook_signing_secret s \<noteq> [] then webhook_signing_secret s else pseudogram_api_key s)"

lemma strip_settings_idem: "strip_settings (strip_settings s) = strip_settings s"
  by (simp add: strip_settings_def)

text \<open>A secret that is only white space, such as a stray newline, counts as unset.\<close>

lemma signing_secret_strip_settings:
  "signing_secret (strip_settings s) =
     (if strip (webhook_signing_secret s) \<noteq> [] then strip (webhook_signing_secret s)
      else strip (pseudogram_api_key s))"
  by (simp add: signing_secret_def strip_settings_def)

lemmas default_settings_simps = default_settings_def settings.simps settings.select_convs

end
