(* ===== verification/Models.thy ===== *)
theory Models
  imports Config "HOL-Library.Product_Lexorder"
begin

text \<open>
  \<^verbatim>\<open>app/models.py\<close> and \<^verbatim>\<open>app/database.py\<close>: the six tables as lists of rows, the status
  enumerations, the constraints the schema declares and the transaction wrapper
  \<open>session_scope\<close>.  The database is one value of type \<open>db\<close>; a transaction that is
  committed replaces it, one that is rolled back leaves it.  Rows stand in the order of
  their \<open>rowid\<close>.
\<close>

section \<open>Enumerations\<close>

datatype event_status = RECEIVED | PROCESSING | PROCESSED | IGNORED

datatype job_status = QUEUED | SENDING | ACCEPTED | DELIVERED | RETRY_WAIT | FAILED | CANCELLED

definition pending_job_statuses :: "job_status list" where
  "pending_job_statuses = [QUEUED, SENDING, ACCEPTED, RETRY_WAIT]"

definition cancellable_job_statuses :: "job_status list" where
  "cancellable_job_statuses = [QUEUED, RETRY_WAIT]"

datatype counter_key = DUPLICATES_BLOCKED | DUPLICATE_EVENTS | EVENTS_RECEIVED

fun counter_key_value :: "counter_key \<Rightarrow> string" where
  "counter_key_value DUPLICATES_BLOCKED = ''duplicates_blocked''"
| "counter_key_value DUPLICATE_EVENTS = ''duplicate_events''"
| "counter_key_value EVENTS_RECEIVED = ''events_received''"

definition all_counter_keys :: "counter_key list" where
  "all_counter_keys = [DUPLICATES_BLOCKED, DUPLICATE_EVENTS, EVENTS_RECEIVED]"

section \<open>Rows\<close>

record rule =
  r_id :: string
  r_keyword :: string
  r_keyword_normalized :: string
  r_dm_message :: string
  r_is_active :: int
  r_created_at :: time

record event =
  e_id :: nat
  e_event_id :: string
  e_event_type :: string
  e_comment_id :: "string option"
  e_post_id :: "string option"
  e_user_id :: "string option"
  e_username :: "string option"
  e_text :: "string option"
  e_sent_at :: "time option"
  e_received_at :: time
  e_processed_at :: "time option"
  e_status :: event_status

record job =
  j_id :: nat
  j_rule_id :: string
  j_user_id :: string
  j_comment_id :: "string option"
  j_message :: string
  j_status :: job_status
  j_attempts :: nat
  j_transient_failures :: nat
  j_send_cycle :: nat
  j_dm_id :: "string option"
  j_next_retry_at :: "time option"
  j_last_error :: "string option"
  j_last_status_check_at :: "time option"
  j_created_at :: time
  j_updated_at :: time

definition idempotency_key :: "job \<Rightarrow> string" where
  "idempotency_key j =
     (if j_send_cycle j \<noteq> 0
      then ''dm-job-'' @ nat_str (j_id j) @ ''-r'' @ nat_str (j_send_cycle j)
      else ''dm-job-'' @ nat_str (j_id j))"

record db =
  d_rules :: "rule list"
  d_events :: "event list"
  d_jobs :: "job list"
  d_deleted :: "(string \<times> time) list"
  d_counters :: "(string \<times> int) list"
  d_send_log :: "(nat \<times> rat) list"

definition empty_db :: db where
  "empty_db = \<lparr>d_rules = [], d_events = [], d_jobs = [], d_deleted = [],
               d_counters = [], d_send_log = []\<rparr>"

section \<open>Constraints of the schema\<close>

text \<open>The partial index \<open>uq_dm_jobs_rule_user ... WHERE status != 'cancelled'\<close>.\<close>

definition holds_slot :: "job \<Rightarrow> bool" where
  "holds_slot j \<longleftrightarrow> j_status j \<noteq> CANCELLED"

definition slot :: "job \<Rightarrow> string \<times> string" where
  "slot j = (j_rule_id j, j_user_id j)"

lemma holds_slot_id [simp]: "holds_slot (j\<lparr>j_id := i\<rparr>) = holds_slot j"
  by (simp add: holds_slot_def)

lemma slot_id [simp]: "slot (j\<lparr>j_id := i\<rparr>) = slot j"
  by (simp add: slot_def)

definition uq_dm_jobs_rule_user :: "db \<Rightarrow> bool" where
  "uq_dm_jobs_rule_user d \<longleftrightarrow> unique_index holds_slot slot (d_jobs d)"

definition uq_events_event_id :: "db \<Rightarrow> bool" where
  "uq_events_event_id d \<longleftrightarrow> distinct (map e_event_id (d_events d))"

text \<open>
  \<open>INSERT INTO dm_jobs\<close>: refused when the rule does not exist (foreign key) or when a
  live job holds the slot; else the row gets the next primary key.
\<close>

definition insert_job :: "job \<Rightarrow> db \<Rightarrow> (db \<times> nat) res" where
  "insert_job j d =
     (let j' = j\<lparr>j_id := next_pk (map j_id (d_jobs d))\<rparr> in
      if j_rule_id j \<notin> r_id ` set (d_rules d) then Inl IntegrityError
      else if holds_slot j \<and> (\<exists>k \<in> set (d_jobs d). holds_slot k \<and> slot k = slot j)
        then Inl IntegrityError
      else Inr (d\<lparr>d_jobs := d_jobs d @ [j']\<rparr>, j_id j'))"

text \<open>Flushing a changed job: the unique index is checked against the other rows.\<close>

definition flush_job :: "job \<Rightarrow> db \<Rightarrow> db res" where
  "flush_job j d =
     (if holds_slot j \<and> (\<exists>k \<in> set (d_jobs d). j_id k \<noteq> j_id j \<and> holds_slot k \<and> slot k = slot j)
      then Inl IntegrityError
      else Inr (d\<lparr>d_jobs := replace_by j_id j (d_jobs d)\<rparr>))"

definition insert_event :: "event \<Rightarrow> db \<Rightarrow> (db \<times> nat) res" where
  "insert_event e d =
     (let e' = e\<lparr>e_id := next_pk (map e_id (d_events d))\<rparr> in
      if e_event_id e \<in> e_event_id ` set (d_events d) then Inl IntegrityError
      else Inr (d\<lparr>d_events := d_events d @ [e']\<rparr>, e_id e'))"

definition insert_deleted :: "string \<Rightarrow> time \<Rightarrow> db \<Rightarrow> db res" where
  "insert_deleted c t d =
     (if c \<in> fst ` set (d_deleted d) then Inl IntegrityError
      else Inr (d\<lparr>d_deleted := d_deleted d @ [(c, t)]\<rparr>))"

definition insert_counter :: "string \<Rightarrow> int \<Rightarrow> db \<Rightarrow> db res" where
  "insert_counter k v d =
     (if k \<in> fst ` set (d_counters d) then Inl IntegrityError
      else Inr (d\<lparr>d_counters := d_counters d @ [(k, v)]\<rparr>))"

definition get_job :: "nat \<Rightarrow> db \<Rightarrow> job option" where
  "get_job i d = find_by j_id i (d_jobs d)"

definition get_event :: "nat \<Rightarrow> db \<Rightarrow> event option" where
  "get_event i d = find_by e_id i (d_events d)"

section \<open>Transactions\<close>

text \<open>
  \<open>session_scope\<close>: the body runs on the current database; success commits its result,
  an exception rolls back and is raised again.
\<close>

definition session_scope :: "(db \<Rightarrow> (db \<times> 'a) res) \<Rightarrow> db \<Rightarrow> db \<times> 'a res" where
  "session_scope body d = (case body d of Inl e \<Rightarrow> (d, Inl e) | Inr (d', x) \<Rightarrow> (d', Inr x))"

lemma session_scope_rollback: "snd (session_scope body d) = Inl e \<Longrightarrow> fst (session_scope body d) = d"
  by (auto simp: session_scope_def split: sum.splits prod.splits)

lemma session_scope_cases:
  obtains e where "body d = Inl e" "session_scope body d = (d, Inl e)"
    | d' x where "body d = Inr (d', x)" "session_scope body d = (d', Inr x)"
  by (cases "body d") (auto simp: session_scope_def split: sum.splits prod.splits)

section \<open>The schema invariant\<close>

definition db_ok :: "db \<Rightarrow> bool" where
  "db_ok d \<longleftrightarrow> distinct (map j_id (d_jobs d)) \<and> uq_dm_jobs_rule_user d
     \<and> (\<forall>j \<in> set (d_jobs d). j_rule_id j \<in> r_id ` set (d_rules d))
     \<and> distinct (map e_id (d_events d)) \<and> uq_events_event_id d
     \<and> distinct (map fst (d_deleted d)) \<and> distinct (map fst (d_counters d))
     \<and> distinct (map r_id (d_rules d))"

lemma db_ok_empty [inv_intros]: "db_ok empty_db"
  by (simp add: db_ok_def empty_db_def uq_dm_jobs_rule_user_def uq_events_event_id_def
      unique_index_def)

lemma insert_job_db_ok [inv_intros]:
  "db_ok d \<Longrightarrow> insert_job j d = Inr (d', i) \<Longrightarrow> db_ok d'"
  by (fastforce simp: db_ok_def insert_job_def Let_def uq_dm_jobs_rule_user_def
      uq_events_event_id_def unique_index_append split: if_splits)

lemma flush_job_db_ok [inv_intros]:
  assumes "db_ok d" "flush_job j d = Inr d'" "j_rule_id j \<in> r_id ` set (d_rules d)"
  shows "db_ok d'"
  using assms unique_index_replace_by[of holds_slot slot "d_jobs d" j_id j]
  by (fastforce simp: db_ok_def flush_job_def uq_dm_jobs_rule_user_def uq_events_event_id_def
      map_key_replace_by dest: set_replace_by split: if_splits)

lemma insert_event_db_ok [inv_intros]:
  "db_ok d \<Longrightarrow> insert_event e d = Inr (d', i) \<Longrightarrow> db_ok d'"
  by (auto simp: db_ok_def insert_event_def Let_def uq_dm_jobs_rule_user_def
      uq_events_event_id_def split: if_splits)

lemma insert_deleted_db_ok [inv_intros]:
  "db_ok d \<Longrightarrow> insert_deleted c t d = Inr d' \<Longrightarrow> db_ok d'"
  by (auto simp: db_ok_def insert_deleted_def uq_dm_jobs_rule_user_def uq_events_event_id_def
      split: if_splits)

lemma insert_counter_db_ok [inv_intros]:
  "db_ok d \<Longrightarrow> insert_counter k v d = Inr d' \<Longrightarrow> db_ok d'"
  by (auto simp: db_ok_def insert_counter_def uq_dm_jobs_rule_user_def uq_events_event_id_def
      split: if_splits)

text \<open>
  A bulk update of jobs that keeps the identifying columns and does not bring a cancelled
  job back keeps the schema invariant.
\<close>

lemma update_jobs_db_ok [inv_intros]:
  assumes "db_ok d"
    and "\<And>j. j_id (f j) = j_id j" "\<And>j. j_rule_id (f j) = j_rule_id j"
    and "\<And>j. j_user_id (f j) = j_user_id j"
    and "\<And>j. P j \<Longrightarrow> holds_slot (f j) \<Longrightarrow> holds_slot j"
  shows "db_ok (d\<lparr>d_jobs := update_where P f (d_jobs d)\<rparr>)"
proof -
  have "unique_index holds_slot slot (update_where P f (d_jobs d))"
    using assms by (intro unique_index_update_where)
      (auto simp: db_ok_def uq_dm_jobs_rule_user_def slot_def)
  then show ?thesis
    using assms by (auto simp: db_ok_def uq_dm_jobs_rule_user_def uq_events_event_id_def
        map_key_update_where set_update_where)
qed

lemma update_events_db_ok [inv_intros]:
  assumes "db_ok d" and "\<And>e. e_id (f e) = e_id e" "\<And>e. e_event_id (f e) = e_event_id e"
  shows "db_ok (d\<lparr>d_events := update_where P f (d_events d)\<rparr>)"
  using assms by (auto simp: db_ok_def uq_dm_jobs_rule_user_def uq_events_event_id_def
      map_key_update_where)

lemma db_ok_job_unique:
  assumes "db_ok d" "j \<in> set (d_jobs d)" "k \<in> set (d_jobs d)"
    and "holds_slot j" "holds_slot k" "slot j = slot k"
  shows "j = k"
  using assms unique_index_unique[of holds_slot slot "d_jobs d" j k]
  by (simp add: db_ok_def distinct_map uq_dm_jobs_rule_user_def)

lemma get_job_iff:
  "db_ok d \<Longrightarrow> get_job i d = Some j \<longleftrightarrow> j \<in> set (d_jobs d) \<and> j_id j = i"
  by (simp add: get_job_def db_ok_def find_by_iff)

lemma get_job_SomeD: "get_job i d = Some j \<Longrightarrow> j \<in> set (d_jobs d) \<and> j_id j = i"
  unfolding get_job_def by (rule find_by_SomeD)

section \<open>Idempotency keys\<close>

lemma digits_prefix_split:
  assumes "list_all is_digit a" "list_all is_digit b"
    and "xs = [] \<or> \<not> is_digit (hd xs)" "ys = [] \<or> \<not> is_digit (hd ys)"
    and "a @ xs = b @ ys"
  shows "a = b \<and> xs = ys"
proof -
  have *: "takeWhile is_digit (c @ zs) = c" if "list_all is_digit c" "zs = [] \<or> \<not> is_digit (hd zs)"
    for c zs
    using that by (induction c) (auto simp: takeWhile_eq_Nil_iff)
  from *[OF assms(1,3)] *[OF assms(2,4)] assms(5) show ?thesis by simp
qed

lemma nat_str_append_inj:
  assumes "xs = [] \<or> \<not> is_digit (hd xs)" "ys = [] \<or> \<not> is_digit (hd ys)"
    and "nat_str a @ xs = nat_str b @ ys"
  shows "a = b \<and> xs = ys"
  using digits_prefix_split[of "nat_str a" "nat_str b" xs ys] assms
  by (simp add: list_all_iff nat_str_digits nat_str_inj)


lemma idempotency_key_eq_iff:
  "idempotency_key j = idempotency_key k \<longleftrightarrow>
     j_id j = j_id k \<and> j_send_cycle j = j_send_cycle k"
proof
  define suffix where
    "suffix c = (if c = 0 then [] else ''-r'' @ nat_str c)" for c :: nat
  have shape: "idempotency_key x = ''dm-job-'' @ nat_str (j_id x) @ suffix (j_send_cycle x)" for x
    by (simp add: idempotency_key_def suffix_def)
  have nodigit: "suffix c = [] \<or> \<not> is_digit (hd (suffix c))" for c
    by (simp add: suffix_def is_digit_def code_def)
  assume "idempotency_key j = idempotency_key k"
  then have "nat_str (j_id j) @ suffix (j_send_cycle j) = nat_str (j_id k) @ suffix (j_send_cycle k)"
    by (simp add: shape)
  then have "j_id j = j_id k" "suffix (j_send_cycle j) = suffix (j_send_cycle k)"
    using nat_str_append_inj nodigit by blast+
  then show "j_id j = j_id k \<and> j_send_cycle j = j_send_cycle k"
    by (auto simp: suffix_def nat_str_inj split: if_splits)
qed (simp add: idempotency_key_def)

text \<open>
  The \<open>Idempotency-Key\<close> names the job and its send cycle and nothing else: two jobs
  have the same key exactly when they have the same id and the same number of failed
  deliveries.  So a transport-level retry repeats the key, and a deliberate re-send after a
  delivery failure, or any other job, never does.
\<close>

theorem idempotency_key_inj:
  "idempotency_key j = idempotency_key k \<longleftrightarrow>
     j_id j = j_id k \<and> j_send_cycle j = j_send_cycle k"
  by (rule idempotency_key_eq_iff)

end
