(* ===== verification/Counters.thy ===== *)
theory Counters
  imports Models
begin

text \<open>
  \<^verbatim>\<open>app/services/counters.py\<close>: persistent counters.  \<open>increment\<close> is one conditional
  UPDATE; only when it touches no row is the counter created, and a create that loses a
  race falls back to the UPDATE.  What another session commits between the two statements
  is the argument \<open>env\<close>.
\<close>

definition update_counter :: "string \<Rightarrow> int \<Rightarrow> db \<Rightarrow> db" where
  "update_counter k amount d =
     d\<lparr>d_counters := update_where (\<lambda>c. fst c = k) (\<lambda>c. (fst c, snd c + amount)) (d_counters d)\<rparr>"

definition increment_with :: "(db \<Rightarrow> db) \<Rightarrow> counter_key \<Rightarrow> int \<Rightarrow> db \<Rightarrow> db" where
  "increment_with env key amount d =
     (if amount = 0 then d
      else
        let k = counter_key_value key;
            rowcount = count_where (\<lambda>c. fst c = k) (d_counters d);
            d1 = update_counter k amount d
        in if rowcount \<noteq> 0 then d1
           else (case insert_counter k amount (env d1) of
                   Inr d2 \<Rightarrow> d2
                 | Inl _ \<Rightarrow> update_counter k amount (env d1)))"

definition increment :: "counter_key \<Rightarrow> int \<Rightarrow> db \<Rightarrow> db" where
  "increment = increment_with id"

definition get_counter :: "counter_key \<Rightarrow> db \<Rightarrow> int" where
  "get_counter key d = (case map_of (d_counters d) (counter_key_value key) of
     Some v \<Rightarrow> v | None \<Rightarrow> 0)"

definition seed_counters :: "db \<Rightarrow> db" where
  "seed_counters d =
     (let existing = map fst (d_counters d)
      in d\<lparr>d_counters := d_counters d @
             map (\<lambda>k. (counter_key_value k, 0))
               (filter (\<lambda>k. counter_key_value k \<notin> set existing) all_counter_keys)\<rparr>)"

lemma get_counter_frame [simp, frame_simps]:
  "get_counter k (d\<lparr>d_jobs := js\<rparr>) = get_counter k d"
  "get_counter k (d\<lparr>d_events := es\<rparr>) = get_counter k d"
  "get_counter k (d\<lparr>d_deleted := xs\<rparr>) = get_counter k d"
  "get_counter k (d\<lparr>d_rules := rs\<rparr>) = get_counter k d"
  "get_counter k (d\<lparr>d_send_log := l\<rparr>) = get_counter k d"
  by (simp_all add: get_counter_def)

lemma counter_key_value_inj [simp]: "counter_key_value a = counter_key_value b \<longleftrightarrow> a = b"
  by (cases a; cases b) simp_all

lemma map_of_update_counter:
  "map_of (update_where (\<lambda>c. fst c = k) (\<lambda>c. (fst c, snd c + n)) cs) k'
     = (if k' = k then map_option (\<lambda>v. v + n) (map_of cs k) else map_of cs k')"
  by (induction cs) (auto simp: update_where_Cons)

lemma map_of_append_None: "map_of xs k = None \<Longrightarrow> map_of (xs @ [(k, v)]) k' =
    (if k' = k then Some v else map_of xs k')"
  by (auto simp: map_add_def split: option.splits)

lemma increment_frame [simp, frame_simps]:
  "d_rules (increment k n d) = d_rules d" "d_events (increment k n d) = d_events d"
  "d_jobs (increment k n d) = d_jobs d" "d_deleted (increment k n d) = d_deleted d"
  "d_send_log (increment k n d) = d_send_log d"
  by (auto simp: increment_def increment_with_def Let_def update_counter_def insert_counter_def
      split: sum.splits if_splits)

lemma seed_counters_frame [simp, frame_simps]:
  "d_rules (seed_counters d) = d_rules d" "d_events (seed_counters d) = d_events d"
  "d_jobs (seed_counters d) = d_jobs d" "d_deleted (seed_counters d) = d_deleted d"
  "d_send_log (seed_counters d) = d_send_log d"
  by (simp_all add: seed_counters_def Let_def)

lemma count_counter:
  "count_where (\<lambda>c. fst c = k) cs = 0 \<longleftrightarrow> k \<notin> fst ` set cs"
  "0 < count_where (\<lambda>c. fst c = k) cs \<longleftrightarrow> k \<in> fst ` set cs"
  using count_where_zero[of "\<lambda>c. fst c = k" cs] by (auto intro: rev_image_eqI)

lemma update_counter_absent: "k \<notin> fst ` set (d_counters d) \<Longrightarrow> update_counter k n d = d"
  unfolding update_counter_def by (subst update_where_none) auto

lemma map_of_presentE:
  assumes "k \<in> fst ` set cs" obtains v where "map_of cs k = Some v"
  using assms by (metis map_of_eq_None_iff option.exhaust)

lemma increment_with_present:
  "counter_key_value key \<in> fst ` set (d_counters d) \<Longrightarrow> amount \<noteq> 0 \<Longrightarrow>
   increment_with env key amount d = update_counter (counter_key_value key) amount d"
  by (simp add: increment_with_def Let_def count_counter)

lemma increment_with_absent:
  "counter_key_value key \<notin> fst ` set (d_counters d) \<Longrightarrow> amount \<noteq> 0 \<Longrightarrow>
   increment_with env key amount d =
     (if counter_key_value key \<in> fst ` set (d_counters (env d))
      then update_counter (counter_key_value key) amount (env d)
      else (env d)\<lparr>d_counters := d_counters (env d) @ [(counter_key_value key, amount)]\<rparr>)"
  by (simp add: increment_with_def Let_def count_counter update_counter_absent insert_counter_def)

lemma increment_with_zero [simp]: "increment_with env key 0 d = d"
  by (simp add: increment_with_def)

lemma get_update_counter:
  "counter_key_value key \<in> fst ` set (d_counters d) \<Longrightarrow>
   get_counter key' (update_counter (counter_key_value key) n d) =
     get_counter key' d + (if key' = key then n else 0)"
  by (erule map_of_presentE) (simp add: get_counter_def update_counter_def map_of_update_counter)

lemma get_append_counter:
  "counter_key_value key \<notin> fst ` set (d_counters d) \<Longrightarrow>
   get_counter key' (d\<lparr>d_counters := d_counters d @ [(counter_key_value key, n)]\<rparr>) =
     get_counter key' d + (if key' = key then n else 0)"
  by (simp add: get_counter_def map_of_append_None iffD2[OF map_of_eq_None_iff] del: map_of_append)

lemma get_increment [simp]:
  "get_counter key' (increment key amount d) =
     get_counter key' d + (if key' = key then amount else 0)"
  unfolding increment_def
  by (cases "amount = 0"; cases "counter_key_value key \<in> fst ` set (d_counters d)")
    (simp_all add: increment_with_present increment_with_absent get_update_counter
      get_append_counter)

lemma map_of_zeros:
  "map_of (map (\<lambda>k. (counter_key_value k, 0::int)) ks) k = Some v \<Longrightarrow> v = 0"
  by (induction ks) (auto split: if_splits)

lemma get_seed_counters [simp]: "get_counter key (seed_counters d) = get_counter key d"
  by (auto simp: seed_counters_def get_counter_def Let_def map_add_def map_of_eq_None_iff
      image_iff dest: map_of_zeros split: option.splits)
    (metis fst_conv image_eqI map_of_SomeD)

lemma seed_counters_complete:
  "counter_key_value key \<in> fst ` set (d_counters (seed_counters d))"
  by (cases key) (auto simp: seed_counters_def Let_def all_counter_keys_def image_iff)

lemma update_counter_db_ok [inv_intros]: "db_ok d \<Longrightarrow> db_ok (update_counter k n d)"
  by (simp add: update_counter_def db_ok_def uq_dm_jobs_rule_user_def uq_events_event_id_def
      map_key_update_where)

lemma increment_db_ok [inv_intros]: "db_ok d \<Longrightarrow> db_ok (increment k n d)"
  unfolding increment_def
  by (cases "n = 0"; cases "counter_key_value k \<in> fst ` set (d_counters d)")
    (simp_all add: increment_with_present increment_with_absent update_counter_db_ok,
     simp add: db_ok_def uq_dm_jobs_rule_user_def uq_events_event_id_def)

lemma seed_counters_db_ok [inv_intros]: "db_ok d \<Longrightarrow> db_ok (seed_counters d)"
  by (auto simp: seed_counters_def Let_def db_ok_def uq_dm_jobs_rule_user_def
      uq_events_event_id_def all_counter_keys_def distinct_map)

section \<open>The counter interface\<close>

text \<open>
  What the clients of the counters rely on: an increment adds to its own counter and
  leaves every other counter alone.
\<close>

locale counter_store =
  fixes incr :: "'k \<Rightarrow> int \<Rightarrow> 's \<Rightarrow> 's" and read :: "'k \<Rightarrow> 's \<Rightarrow> int"
  assumes read_same: "read k (incr k n s) = read k s + n"
    and read_other: "k' \<noteq> k \<Longrightarrow> read k' (incr k n s) = read k' s"
begin

lemma read_fold_same: "read k (fold (\<lambda>n s. incr k n s) ns s) = read k s + sum_list ns"
  by (induction ns arbitrary: s) (simp_all add: read_same)

lemma read_fold_other: "k' \<noteq> k \<Longrightarrow> read k' (fold (\<lambda>n s. incr k n s) ns s) = read k' s"
  by (induction ns arbitrary: s) (simp_all add: read_other)

lemma read_repeat: "read k ((incr k n ^^ m) s) = read k s + int m * n"
  by (induction m) (simp_all add: read_same algebra_simps)

lemma incr_commute:
  "read j (incr k n (incr k' m s)) = read j (incr k' m (incr k n s))"
  by (cases "j = k"; cases "j = k'") (simp_all add: read_same read_other)

end

interpretation counters: counter_store increment get_counter
  by unfold_locales simp_all

text \<open>
  An increment is never lost, whatever another session commits between the UPDATE that
  found no row and the INSERT: the counter ends at the other session's value plus the
  amount (here the other session may create the row itself), no other counter moves, and
  the number of increments of one that were made is what the counter has gained.
\<close>

theorem increment_never_lost:
  assumes "amount \<noteq> 0" and "counter_key_value key \<notin> fst ` set (d_counters d)"
  shows "get_counter key (increment_with env key amount d) = get_counter key (env d) + amount
     \<and> (key' \<noteq> key \<longrightarrow> get_counter key' (increment_with env key amount d) = get_counter key' (env d))
     \<and> get_counter key ((increment key 1 ^^ m) d) = int m"
proof -
  have "get_counter key d = 0"
    using assms(2) by (simp add: get_counter_def iffD2[OF map_of_eq_None_iff])
  then show ?thesis
    using assms counters.read_repeat[where k = key and n = 1 and m = m and s = d]
    by (simp add: increment_with_absent get_update_counter get_append_counter)
qed

theorem increment_never_lost_witness:
  "get_counter DUPLICATES_BLOCKED
     (increment_with (increment DUPLICATES_BLOCKED 1) DUPLICATES_BLOCKED 1 empty_db) = 2"
proof -
  have h: "(1::int) \<noteq> 0" "counter_key_value DUPLICATES_BLOCKED \<notin> fst ` set (d_counters empty_db)"
    by (simp_all add: empty_db_def)
  have "get_counter DUPLICATES_BLOCKED empty_db = 0" by (simp add: empty_db_def get_counter_def)
  with increment_never_lost[OF h, of "increment DUPLICATES_BLOCKED 1"] show ?thesis by simp
qed

end
