(* ===== verification/Pseudogram.thy ===== *)
theory Pseudogram
  imports Config
begin

text \<open>
  \<^verbatim>\<open>app/services/pseudogram.py\<close>: the HTTP client.  The network and the PseudoGram server
  are arguments: a request function on the state \<open>'w\<close> of the world returns a response, an
  \<open>httpx.HTTPError\<close>, or some other exception that the client does not catch.
\<close>

datatype send_outcome = S_ACCEPTED | S_RATE_LIMITED | S_SERVER_ERROR | S_INVALID
  | S_AUTH_ERROR | S_TRANSPORT_ERROR | S_UNEXPECTED

fun send_outcome_value :: "send_outcome \<Rightarrow> string" where
  "send_outcome_value S_ACCEPTED = ''accepted''"
| "send_outcome_value S_RATE_LIMITED = ''rate_limited''"
| "send_outcome_value S_SERVER_ERROR = ''server_error''"
| "send_outcome_value S_INVALID = ''invalid''"
| "send_outcome_value S_AUTH_ERROR = ''auth_error''"
| "send_outcome_value S_TRANSPORT_ERROR = ''transport_error''"
| "send_outcome_value S_UNEXPECTED = ''unexpected''"

datatype status_outcome = ST_OK | ST_NOT_FOUND | ST_ERROR

text \<open>
  The fields typed \<open>str | None\<close> hold whatever the response body held: \<open>None\<close> is
  \<open>JNull\<close>, and nothing checks that they are strings.
\<close>

record send_result =
  sr_outcome :: send_outcome
  sr_dm_id :: json
  sr_status_code :: "int option"
  sr_retry_after :: "pyfloat option"
  sr_error :: json

record status_result =
  st_outcome :: status_outcome
  st_status :: json
  st_status_code :: "int option"
  st_error :: json

record send_request =
  rq_recipient_user_id :: string
  rq_message :: string
  rq_comment_id :: "string option"
  rq_idempotency_key :: string

text \<open>A response: \<open>hr_json\<close> is \<open>None\<close> when the body is not JSON.\<close>

record http_response =
  hr_status_code :: int
  hr_retry_after :: "string option"
  hr_json :: "json option"
  hr_text :: string

datatype http_reply = Response http_response | HTTPError string string | OtherException

definition parse_retry_after :: "string option \<Rightarrow> pyfloat option" where
  "parse_retry_after v = (case v of
       None \<Rightarrow> None
     | Some s \<Rightarrow> if s = [] then None else map_option max_zero (py_float s))"

definition safe_json :: "http_response \<Rightarrow> (string \<times> json) list" where
  "safe_json r = (case hr_json r of Some (JObj d) \<Rightarrow> d | _ \<Rightarrow> [])"

definition truncate :: "string \<Rightarrow> nat \<Rightarrow> string" where
  "truncate s limit = (if length s \<le> limit then s else take limit s @ ''...'')"

definition configured :: "settings \<Rightarrow> bool" where
  "configured s \<longleftrightarrow> pseudogram_api_key s \<noteq> []"

definition blank_result :: "send_outcome \<Rightarrow> json \<Rightarrow> send_result" where
  "blank_result out err = \<lparr>sr_outcome = out, sr_dm_id = JNull, sr_status_code = None,
     sr_retry_after = None, sr_error = err\<rparr>"

definition http_error_text :: "string \<Rightarrow> string \<Rightarrow> json" where
  "http_error_text name msg = JStr (name @ '': '' @ msg)"

text \<open>The translation of a response, in the order of the code's tests.\<close>

definition classify_send :: "http_response \<Rightarrow> send_result" where
  "classify_send r =
     (let code = hr_status_code r; body = safe_json r;
          res = (\<lambda>out err. (blank_result out err)\<lparr>sr_status_code := Some code\<rparr>);
          short = JStr (truncate (hr_text r) 300)
      in if code \<in> {200, 201, 202} then
           (res S_ACCEPTED JNull)\<lparr>sr_dm_id := dict_get body ''dm_id''\<rparr>
         else if code = 429 then
           (res S_RATE_LIMITED (dict_get_default body ''error'' (JStr ''rate_limited'')))
             \<lparr>sr_retry_after := parse_retry_after (hr_retry_after r)\<rparr>
         else if code \<ge> 500 then
           res S_SERVER_ERROR (py_or (dict_get body ''error'') short)
         else if code \<in> {401, 403} then
           res S_AUTH_ERROR
             (py_or (py_or (dict_get body ''detail'') (dict_get body ''error'')) (JStr ''unauthorised''))
         else if code \<in> {408, 409} then
           res S_SERVER_ERROR (py_or (dict_get body ''error'') short)
         else if 400 \<le> code \<and> code < 500 then
           res S_INVALID (py_or (py_or (dict_get body ''detail'') (dict_get body ''error'')) short)
         else res S_UNEXPECTED short)"

definition send_dm ::
  "settings \<Rightarrow> ('w \<Rightarrow> send_request \<Rightarrow> 'w \<times> http_reply) \<Rightarrow> 'w \<Rightarrow> send_request
     \<Rightarrow> 'w \<times> send_result res" where
  "send_dm s post w rq =
     (if \<not> configured s then
        (w, Inr (blank_result S_INVALID (JStr ''PSEUDOGRAM_API_KEY is not configured'')))
      else case post w rq of
          (w', Response r) \<Rightarrow> (w', Inr (classify_send r))
        | (w', HTTPError name msg) \<Rightarrow>
            (w', Inr (blank_result S_TRANSPORT_ERROR (http_error_text name msg)))
        | (w', OtherException) \<Rightarrow> (w', Inl TransportException))"

definition blank_status :: "status_outcome \<Rightarrow> json \<Rightarrow> status_result" where
  "blank_status out err = \<lparr>st_outcome = out, st_status = JNull, st_status_code = None,
     st_error = err\<rparr>"

definition classify_status :: "http_response \<Rightarrow> status_result" where
  "classify_status r =
     (let code = hr_status_code r in
      if code = 404 then (blank_status ST_NOT_FOUND JNull)\<lparr>st_status_code := Some 404\<rparr>
      else if code \<ge> 400 then
        (blank_status ST_ERROR (JStr (truncate (hr_text r) 300)))\<lparr>st_status_code := Some code\<rparr>
      else (blank_status ST_OK JNull)
             \<lparr>st_status := dict_get (safe_json r) ''status'', st_status_code := Some code\<rparr>)"

definition get_dm_status ::
  "settings \<Rightarrow> ('w \<Rightarrow> string \<Rightarrow> 'w \<times> http_reply) \<Rightarrow> 'w \<Rightarrow> string \<Rightarrow> 'w \<times> status_result res" where
  "get_dm_status s get w dm_id =
     (if \<not> configured s then
        (w, Inr (blank_status ST_ERROR (JStr ''PSEUDOGRAM_API_KEY is not configured'')))
      else case get w dm_id of
          (w', Response r) \<Rightarrow> (w', Inr (classify_status r))
        | (w', HTTPError name msg) \<Rightarrow> (w', Inr (blank_status ST_ERROR (http_error_text name msg)))
        | (w', OtherException) \<Rightarrow> (w', Inl TransportException))"

section \<open>Facts\<close>

lemma blank_result_sel [simp]:
  "sr_outcome (blank_result out e) = out" "sr_dm_id (blank_result out e) = JNull"
  "sr_retry_after (blank_result out e) = None" "sr_error (blank_result out e) = e"
  by (simp_all add: blank_result_def)

lemma blank_status_sel [simp]:
  "st_outcome (blank_status out e) = out" "st_status (blank_status out e) = JNull"
  "st_error (blank_status out e) = e"
  by (simp_all add: blank_status_def)

text \<open>
  The delay read from \<open>Retry-After\<close> is never negative and never NaN: it is absent
  (header missing, empty or not a number, e.g. an HTTP date), a non-negative number, or
  infinity.
\<close>

theorem parse_retry_after_range:
  "parse_retry_after v = None \<or> parse_retry_after v = Some FInf
     \<or> (\<exists>r \<ge> 0. parse_retry_after v = Some (FNum r))"
proof (cases "parse_retry_after v")
  case (Some x)
  then obtain y where "x = max_zero y"
    by (auto simp: parse_retry_after_def split: option.splits if_splits)
  with Some show ?thesis by (cases y) (auto simp: max_zero_def)
qed simp

text \<open>
  Which responses abandon a message, and which hand one over.  The client answers
  \<open>INVALID\<close>, the one outcome that is never retried, exactly when no key is configured or the
  server answered with a 4xx code other than 401, 403, 408, 409 and 429.  It reports a
  \<open>dm_id\<close> exactly when a key is configured and a 200, 201 or 202 response carries one; a
  transport error is reported as such, never as accepted or invalid.
\<close>

theorem send_dm_outcomes:
  "((\<exists>r. snd (send_dm s post w rq) = Inr r \<and> sr_outcome r = S_INVALID) \<longleftrightarrow>
      (if configured s
       then \<exists>w' h. post w rq = (w', Response h) \<and> 400 \<le> hr_status_code h \<and> hr_status_code h < 500
         \<and> hr_status_code h \<notin> {401, 403, 408, 409, 429}
       else True))
   \<and> ((\<exists>r. snd (send_dm s post w rq) = Inr r \<and> sr_dm_id r \<noteq> JNull) \<longleftrightarrow>
      configured s \<and>
      (\<exists>w' h. post w rq = (w', Response h) \<and> hr_status_code h \<in> {200, 201, 202}
         \<and> dict_get (safe_json h) ''dm_id'' \<noteq> JNull))
   \<and> ((\<exists>r. snd (send_dm s post w rq) = Inr r \<and> sr_outcome r = S_TRANSPORT_ERROR) \<longleftrightarrow>
      configured s \<and> (\<exists>w' name msg. post w rq = (w', HTTPError name msg)))"
  by (cases "post w rq"; cases "snd (post w rq)")
    (auto simp: send_dm_def classify_send_def Let_def)

end
