(* ===== verification/Jobs.thy ===== *)
theory Jobs
  imports Counters Pseudogram
begin

text \<open>
  \<^verbatim>\<open>app/services/jobs.py\<close>: the life of a DM job.  Operations on the session take the
  database and return the new one; \<open>utcnow()\<close> and \<open>random.random()\<close> are arguments.
  Attribute changes on a loaded job are computed first (\<open>send_transition\<close>,
  \<open>delivery_transition\<close>) and written by \<open>flush_job\<close>, where the unique index is checked.
\<close>

section \<open>Creation and cancellation\<close>

datatype create_outcome = CREATED | DUPLICATE

record create_result =
  cr_outcome :: create_outcome
  cr_job_id :: "nat option"

definition new_job :: "rule \<Rightarrow> string \<Rightarrow> string option \<Rightarrow> time \<Rightarrow> job" where
  "new_job r user_id comment_id now = \<lparr>
     j_id = 0, j_rule_id = r_id r, j_user_id = user_id, j_comment_id = comment_id,
     j_message = r_dm_message r, j_status = QUEUED, j_attempts = 0,
     j_transient_failures = 0, j_send_cycle = 0, j_dm_id = None, j_next_retry_at = None,
     j_last_error = None, j_last_status_check_at = None,
     j_created_at = now, j_updated_at = now \<rparr>"

definition create_job ::
  "rule \<Rightarrow> string \<Rightarrow> string option \<Rightarrow> time \<Rightarrow> db \<Rightarrow> db \<times> create_result" where
  "create_job r user_id comment_id now d =
     (case insert_job (new_job r user_id comment_id now) d of
        Inl _ \<Rightarrow> (increment DUPLICATES_BLOCKED 1 d, \<lparr>cr_outcome = DUPLICATE, cr_job_id = None\<rparr>)
      | Inr (d', i) \<Rightarrow> (d', \<lparr>cr_outcome = CREATED, cr_job_id = Some i\<rparr>))"

definition cancellable :: "string \<Rightarrow> job \<Rightarrow> bool" where
  "cancellable comment_id j \<longleftrightarrow>
     j_comment_id j = Some comment_id \<and> j_status j \<in> set cancellable_job_statuses"

definition cancel_jobs_for_comment :: "string \<Rightarrow> time \<Rightarrow> db \<Rightarrow> db \<times> nat" where
  "cancel_jobs_for_comment comment_id now d =
     (if comment_id = [] then (d, 0)
      else (d\<lparr>d_jobs := update_where (cancellable comment_id)
                (\<lambda>j. j\<lparr>j_status := CANCELLED, j_updated_at := now\<rparr>) (d_jobs d)\<rparr>,
            count_where (cancellable comment_id) (d_jobs d)))"

section \<open>Claiming and recovery\<close>

definition runnable :: "time \<Rightarrow> job \<Rightarrow> bool" where
  "runnable now j \<longleftrightarrow> j_status j = QUEUED \<or>
     (j_status j = RETRY_WAIT \<and> (case j_next_retry_at j of None \<Rightarrow> False | Some t \<Rightarrow> t \<le> now))"

text \<open>\<open>ORDER BY next_retry_at IS NULL DESC, next_retry_at, id\<close>.\<close>

definition claim_order :: "job \<Rightarrow> nat \<times> int \<times> nat" where
  "claim_order j = (case j_next_retry_at j of
       None \<Rightarrow> (0, 0, j_id j) | Some t \<Rightarrow> (1, t, j_id j))"

definition candidate_ids :: "time \<Rightarrow> db \<Rightarrow> nat list" where
  "candidate_ids now d =
     map j_id (take 10 (sort_key claim_order (filter (runnable now) (d_jobs d))))"

definition claimable :: "nat \<Rightarrow> job \<Rightarrow> bool" where
  "claimable i j \<longleftrightarrow> j_id j = i \<and> j_status j \<in> {QUEUED, RETRY_WAIT}"

definition claim_update :: "nat \<Rightarrow> time \<Rightarrow> db \<Rightarrow> db" where
  "claim_update i now d =
     d\<lparr>d_jobs := update_where (claimable i)
        (\<lambda>j. j\<lparr>j_status := SENDING, j_updated_at := now\<rparr>) (d_jobs d)\<rparr>"

text \<open>The loop over the candidates: the conditional UPDATE is the claim.\<close>

fun claim_from :: "nat list \<Rightarrow> time \<Rightarrow> db \<Rightarrow> db \<times> job option" where
  "claim_from [] now d = (d, None)"
| "claim_from (i # ids) now d =
     (if count_where (claimable i) (d_jobs d) \<noteq> 0
      then (claim_update i now d, get_job i (claim_update i now d))
      else claim_from ids now d)"

definition claim_next_job :: "time \<Rightarrow> db \<Rightarrow> db \<times> job option" where
  "claim_next_job now d = claim_from (candidate_ids now d) now d"

definition stale :: "time \<Rightarrow> job \<Rightarrow> bool" where
  "stale cutoff j \<longleftrightarrow> j_status j = SENDING \<and> j_updated_at j < cutoff"

definition requeue_stale_sending :: "rat \<Rightarrow> time \<Rightarrow> db \<Rightarrow> (db \<times> nat) res" where
  "requeue_stale_sending stale_seconds now d =
     (case minus_seconds now stale_seconds of
        Inl e \<Rightarrow> Inl e
      | Inr cutoff \<Rightarrow>
          Inr (d\<lparr>d_jobs := update_where (stale cutoff)
                   (\<lambda>j. j\<lparr>j_status := QUEUED, j_updated_at := now\<rparr>) (d_jobs d)\<rparr>,
               count_where (stale cutoff) (d_jobs d)))"

section \<open>Backoff\<close>

definition max_error_length :: nat where
  "max_error_length = 500"

text \<open>\<open>random.uniform(a, b)\<close> for the draw \<open>u\<close> of \<open>random.random()\<close>.\<close>

definition uniform :: "rat \<Rightarrow> rat \<Rightarrow> rat \<Rightarrow> rat" where
  "uniform a b u = a + (b - a) * u"

text \<open>The product of a float and an integer above the float range raises.\<close>

definition backoff_delay :: "nat \<Rightarrow> settings \<Rightarrow> rat \<Rightarrow> rat res" where
  "backoff_delay attempts s u =
     (let exponent = attempts - 1 in
      if exponent \<ge> 1024 then Inl OverflowError
      else let base = min (retry_base_seconds s * 2 ^ exponent) (retry_max_backoff_seconds s);
               jitter = base * retry_jitter_ratio s
           in Inr (max (1 / 10) (base + uniform (- jitter) jitter u)))"

section \<open>Transitions\<close>

text \<open>\<open>(error or "")[:MAX_ERROR_LENGTH] or None\<close>, as far as the column accepts it.\<close>

definition error_column :: "json \<Rightarrow> string option res" where
  "error_column err = (case py_slice max_error_length (py_or err (JStr [])) of
       Inl e \<Rightarrow> Inl e
     | Inr v \<Rightarrow> bind_text (py_or v JNull))"

definition retry_time :: "time \<Rightarrow> pyfloat \<Rightarrow> time res" where
  "retry_time now delay = (case delay of
       FNum r \<Rightarrow> plus_seconds now r | FInf \<Rightarrow> Inl OverflowError
     | FNegInf \<Rightarrow> Inl OverflowError | FNan \<Rightarrow> Inl ValueError)"

definition schedule_retry :: "pyfloat \<Rightarrow> json \<Rightarrow> time \<Rightarrow> job \<Rightarrow> job res" where
  "schedule_retry delay err now j = (case retry_time now delay of
       Inl e \<Rightarrow> Inl e
     | Inr t \<Rightarrow> (case error_column err of
           Inl e \<Rightarrow> Inl e
         | Inr le \<Rightarrow> Inr (j\<lparr>j_status := RETRY_WAIT, j_next_retry_at := Some t,
                           j_last_error := le, j_updated_at := now\<rparr>)))"

definition give_up :: "json \<Rightarrow> time \<Rightarrow> job \<Rightarrow> job res" where
  "give_up err now j = (case error_column err of
       Inl e \<Rightarrow> Inl e
     | Inr le \<Rightarrow> Inr (j\<lparr>j_status := FAILED, j_next_retry_at := None,
                       j_last_error := le, j_updated_at := now\<rparr>))"

definition handle_transient_failure ::
  "settings \<Rightarrow> rat \<Rightarrow> json \<Rightarrow> time \<Rightarrow> job \<Rightarrow> job res" where
  "handle_transient_failure s u err now j =
     (let j1 = j\<lparr>j_attempts := j_attempts j + 1,
                j_transient_failures := j_transient_failures j + 1\<rparr> in
      if int (j_transient_failures j1) \<ge> max_dm_attempts s then give_up err now j1
      else (case backoff_delay (j_transient_failures j1) s u of
              Inl e \<Rightarrow> Inl e
            | Inr delay \<Rightarrow> schedule_retry (FNum delay) err now j1))"

definition send_transition ::
  "settings \<Rightarrow> rat \<Rightarrow> time \<Rightarrow> send_result \<Rightarrow> job \<Rightarrow> job res" where
  "send_transition s u now result j =
     (let out = sr_outcome result in
      if out = S_ACCEPTED \<and> \<not> truthy (sr_dm_id result) then
        handle_transient_failure s u (JStr ''accepted_without_dm_id'') now j
      else if out = S_ACCEPTED then
        (case bind_text (sr_dm_id result) of
           Inl e \<Rightarrow> Inl e
         | Inr dm \<Rightarrow> Inr (j\<lparr>j_attempts := j_attempts j + 1, j_transient_failures := 0,
                           j_status := ACCEPTED, j_dm_id := dm, j_last_error := None,
                           j_next_retry_at := None, j_updated_at := now\<rparr>))
      else if out = S_RATE_LIMITED then
        schedule_retry
          (case sr_retry_after result of
             None \<Rightarrow> FNum (send_rate_limit_window_seconds s) | Some x \<Rightarrow> x)
          (JStr ''rate_limited'') now j
      else if out = S_AUTH_ERROR then
        schedule_retry (FNum (auth_error_pause_seconds s))
          (JStr (''auth_error: '' @ py_str (sr_error result))) now j
      else if out = S_INVALID then
        give_up (py_or (sr_error result) (JStr ''invalid_request'')) now
          (j\<lparr>j_attempts := j_attempts j + 1\<rparr>)
      else
        handle_transient_failure s u
          (py_or (sr_error result) (JStr (send_outcome_value out))) now j)"

definition apply_send_result ::
  "settings \<Rightarrow> rat \<Rightarrow> time \<Rightarrow> send_result \<Rightarrow> job \<Rightarrow> db \<Rightarrow> db res" where
  "apply_send_result s u now result j d = (case send_transition s u now result j of
       Inl e \<Rightarrow> Inl e | Inr j' \<Rightarrow> flush_job j' d)"

definition delivery_transition ::
  "settings \<Rightarrow> rat \<Rightarrow> time \<Rightarrow> json \<Rightarrow> job \<Rightarrow> job res" where
  "delivery_transition s u now status j =
     (let j0 = j\<lparr>j_last_status_check_at := Some now\<rparr> in
      if status = JStr ''delivered'' then
        Inr (j0\<lparr>j_status := DELIVERED, j_last_error := None, j_next_retry_at := None,
               j_updated_at := now\<rparr>)
      else if status = JStr ''failed'' then
        (let j1 = j0\<lparr>j_attempts := j_attempts j0 + 1, j_send_cycle := j_send_cycle j0 + 1,
                    j_dm_id := None\<rparr> in
         if int (j_send_cycle j1) \<ge> max_delivery_attempts s then
           give_up (JStr ''delivery_failed'') now j1
         else (case backoff_delay (j_send_cycle j1) s u of
                 Inl e \<Rightarrow> Inl e
               | Inr delay \<Rightarrow>
                   schedule_retry (FNum delay) (JStr ''delivery_failed'') now
                     (j1\<lparr>j_transient_failures := 0\<rparr>)))
      else Inr (j0\<lparr>j_updated_at := now\<rparr>))"

definition apply_delivery_status ::
  "settings \<Rightarrow> rat \<Rightarrow> time \<Rightarrow> json \<Rightarrow> job \<Rightarrow> db \<Rightarrow> db res" where
  "apply_delivery_status s u now status j d = (case delivery_transition s u now status j of
       Inl e \<Rightarrow> Inl e | Inr j' \<Rightarrow> flush_job j' d)"

section \<open>Statistics\<close>

definition by_status :: "db \<Rightarrow> job_status \<Rightarrow> int" where
  "by_status d st = int (count_where (\<lambda>j. j_status j = st) (d_jobs d))"

record stats =
  sent :: int
  failed :: int
  queued :: int
  duplicates_blocked :: int

definition compute_stats :: "db \<Rightarrow> stats" where
  "compute_stats d = \<lparr>
     sent = by_status d DELIVERED,
     failed = by_status d FAILED,
     queued = sum_list (map (by_status d) pending_job_statuses),
     duplicates_blocked = get_counter DUPLICATES_BLOCKED d \<rparr>"

section \<open>Properties of creation and cancellation\<close>

lemma new_job_sel [simp]:
  "j_rule_id (new_job r u c now) = r_id r" "j_user_id (new_job r u c now) = u"
  "j_comment_id (new_job r u c now) = c" "j_status (new_job r u c now) = QUEUED"
  "j_send_cycle (new_job r u c now) = 0" "j_attempts (new_job r u c now) = 0"
  "j_transient_failures (new_job r u c now) = 0" "j_dm_id (new_job r u c now) = None"
  "j_message (new_job r u c now) = r_dm_message r"
  by (simp_all add: new_job_def)

lemma new_job_slot [simp]:
  "holds_slot (new_job r u c now)" "slot (new_job r u c now) = (r_id r, u)"
  by (simp_all add: holds_slot_def slot_def)

definition slot_taken :: "string \<Rightarrow> string \<Rightarrow> db \<Rightarrow> bool" where
  "slot_taken rid u d \<longleftrightarrow> (\<exists>k \<in> set (d_jobs d). holds_slot k \<and> slot k = (rid, u))"

lemma create_job_taken:
  "slot_taken (r_id r) u d \<Longrightarrow> create_job r u c now d =
     (increment DUPLICATES_BLOCKED 1 d, \<lparr>cr_outcome = DUPLICATE, cr_job_id = None\<rparr>)"
  by (simp add: create_job_def insert_job_def slot_taken_def Let_def)

lemma create_job_free:
  assumes "\<not> slot_taken (r_id r) u d" "r \<in> set (d_rules d)"
  defines "i \<equiv> next_pk (map j_id (d_jobs d))"
  shows "create_job r u c now d =
     (d\<lparr>d_jobs := d_jobs d @ [(new_job r u c now)\<lparr>j_id := i\<rparr>]\<rparr>,
      \<lparr>cr_outcome = CREATED, cr_job_id = Some i\<rparr>)"
  using assms by (auto simp: create_job_def insert_job_def slot_taken_def i_def Let_def)

lemma create_job_db_ok [inv_intros]:
  "db_ok d \<Longrightarrow> db_ok (fst (create_job r u c now d))"
  by (auto simp: create_job_def increment_db_ok insert_job_db_ok split: sum.splits)

lemma create_job_frame [simp, frame_simps]:
  "d_rules (fst (create_job r u c now d)) = d_rules d"
  "d_events (fst (create_job r u c now d)) = d_events d"
  "d_deleted (fst (create_job r u c now d)) = d_deleted d"
  "d_send_log (fst (create_job r u c now d)) = d_send_log d"
  by (auto simp: create_job_def insert_job_def Let_def split: sum.splits if_splits)

text \<open>
  C11: Creating a DM job decides once: it reports CREATED exactly when no live job held the
  (rule, user) slot, afterwards exactly one live job holds it, and every call either adds
  one job or one to \<open>duplicates_blocked\<close>, so jobs plus blocked duplicates counts the calls.
\<close>

theorem create_job_decides_once:
  fixes now :: time and c :: "string option" and u :: string
  assumes "db_ok d" and "r \<in> set (d_rules d)"
  defines "d' \<equiv> fst (create_job r u c now d)"
  shows "(cr_outcome (snd (create_job r u c now d)) = CREATED \<longleftrightarrow> \<not> slot_taken (r_id r) u d)
     \<and> (\<exists>!k. k \<in> set (d_jobs d') \<and> holds_slot k \<and> slot k = (r_id r, u))
     \<and> int (length (d_jobs d')) + get_counter DUPLICATES_BLOCKED d'
         = int (length (d_jobs d)) + get_counter DUPLICATES_BLOCKED d + 1"
proof -
  have ok: "db_ok d'" using assms(1) by (simp add: d'_def create_job_db_ok)
  have taken: "slot_taken (r_id r) u d'"
    by (cases "slot_taken (r_id r) u d")
      (auto simp: d'_def create_job_taken create_job_free[OF _ assms(2)] slot_taken_def)
  have uniq: "\<exists>!k. k \<in> set (d_jobs d') \<and> holds_slot k \<and> slot k = (r_id r, u)"
    using taken unfolding slot_taken_def
    by (elim bexE conjE, intro ex1I) (auto intro: db_ok_job_unique[OF ok])
  show ?thesis
    by (cases "slot_taken (r_id r) u d"; intro conjI uniq)
      (auto simp: d'_def create_job_taken create_job_free[OF _ assms(2)])
qed

definition rule1 :: rule where
  "rule1 = \<lparr>r_id = ''r1'', r_keyword = ''PRICE'', r_keyword_normalized = ''price'',
     r_dm_message = ''list'', r_is_active = 1, r_created_at = 0\<rparr>"

definition db1 :: db where
  "db1 = empty_db\<lparr>d_rules := [rule1]\<rparr>"

lemma db1_ok: "db_ok db1" "rule1 \<in> set (d_rules db1)"
  by (simp_all add: db1_def db_ok_def empty_db_def uq_dm_jobs_rule_user_def
      uq_events_event_id_def unique_index_def)

theorem create_job_decides_once_witness:
  "cr_outcome (snd (create_job rule1 ''u1'' None 5 db1)) = CREATED"
  using create_job_decides_once[OF db1_ok, of "''u1''" None 5]
  by (simp add: slot_taken_def db1_def empty_db_def)

text \<open>
  Deleting a comment cancels exactly the jobs that comment created and that are still
  \<open>queued\<close> or \<open>retry_wait\<close>: every other job, in particular one already handed to
  PseudoGram, is untouched, the reported number is the number cancelled, and a second
  deletion changes nothing.
\<close>

theorem cancel_jobs_for_comment_exact:
  fixes now :: time and d :: db
  assumes "comment_id \<noteq> []"
  defines "d' \<equiv> fst (cancel_jobs_for_comment comment_id now d)"
  shows "map j_id (d_jobs d') = map j_id (d_jobs d)
     \<and> (\<forall>i < length (d_jobs d). d_jobs d' ! i =
          (if j_comment_id (d_jobs d ! i) = Some comment_id
              \<and> j_status (d_jobs d ! i) \<in> {QUEUED, RETRY_WAIT}
           then (d_jobs d ! i)\<lparr>j_status := CANCELLED, j_updated_at := now\<rparr>
           else d_jobs d ! i))
     \<and> by_status d' CANCELLED
         = by_status d CANCELLED + int (snd (cancel_jobs_for_comment comment_id now d))
     \<and> cancel_jobs_for_comment comment_id later d' = (d', 0)"
proof -
  have c: "cancellable comment_id j \<longleftrightarrow>
      j_comment_id j = Some comment_id \<and> j_status j \<in> {QUEUED, RETRY_WAIT}" for j
    by (simp add: cancellable_def cancellable_job_statuses_def)
  have "count_where (\<lambda>j. j_status j = CANCELLED) (update_where (cancellable comment_id)
          (\<lambda>j. j\<lparr>j_status := CANCELLED, j_updated_at := now\<rparr>) (d_jobs d)) =
      count_where (\<lambda>j. j_status j = CANCELLED) (d_jobs d) + count_where (cancellable comment_id) (d_jobs d)"
    by (rule count_where_update_where_out) (auto simp: c)
  then have count: "by_status d' CANCELLED = by_status d CANCELLED +
      int (snd (cancel_jobs_for_comment comment_id now d))"
    using assms(1) by (simp add: by_status_def d'_def cancel_jobs_for_comment_def)
  have again: "cancel_jobs_for_comment comment_id later d' = (d', 0)"
    using assms(1) by (simp add: d'_def cancel_jobs_for_comment_def count_where_zero
        update_where_idem set_update_where c ball_Un)
  have each: "\<forall>i < length (d_jobs d). d_jobs d' ! i =
      (if cancellable comment_id (d_jobs d ! i)
       then (d_jobs d ! i)\<lparr>j_status := CANCELLED, j_updated_at := now\<rparr> else d_jobs d ! i)"
    using assms(1) by (simp add: d'_def cancel_jobs_for_comment_def update_where_def)
  have ids: "map j_id (d_jobs d') = map j_id (d_jobs d)"
    using assms(1) by (simp add: d'_def cancel_jobs_for_comment_def map_key_update_where)
  show ?thesis
    using each count again ids unfolding c by blast
qed

theorem cancel_jobs_for_comment_exact_witness:
  "by_status (fst (cancel_jobs_for_comment ''c1'' 9
       (fst (create_job rule1 ''u1'' (Some ''c1'') 5 db1)))) CANCELLED = 1"
proof -
  have "snd (cancel_jobs_for_comment ''c1'' 9
       (fst (create_job rule1 ''u1'' (Some ''c1'') 5 db1))) = 1"
    "by_status (fst (create_job rule1 ''u1'' (Some ''c1'') 5 db1)) CANCELLED = 0"
    by code_simp+
  with cancel_jobs_for_comment_exact[of "''c1''" 9
      "fst (create_job rule1 ''u1'' (Some ''c1'') 5 db1)"] show ?thesis by simp
qed

lemma cancel_db_ok [inv_intros]:
  "db_ok d \<Longrightarrow> db_ok (fst (cancel_jobs_for_comment c now d))"
  by (auto simp: cancel_jobs_for_comment_def holds_slot_def intro!: update_jobs_db_ok)

section \<open>Properties of claiming and recovery\<close>

lemma claim_update_hit:
  fixes now :: time
  assumes "db_ok d" "j \<in> set (d_jobs d)" "j_status j \<in> {QUEUED, RETRY_WAIT}"
  defines "c \<equiv> j\<lparr>j_status := SENDING, j_updated_at := now\<rparr>"
  shows "claim_update (j_id j) now d = d\<lparr>d_jobs := replace_by j_id c (d_jobs d)\<rparr>"
    and "get_job (j_id j) (claim_update (j_id j) now d) = Some c"
    and "count_where (claimable (j_id j)) (d_jobs d) \<noteq> 0"
proof -
  have d: "distinct (map j_id (d_jobs d))" using assms(1) by (simp add: db_ok_def)
  have same: "k = j" if "k \<in> set (d_jobs d)" "j_id k = j_id j" for k
    using d that assms(2) by (simp add: distinct_map inj_on_def)
  show "claim_update (j_id j) now d = d\<lparr>d_jobs := replace_by j_id c (d_jobs d)\<rparr>"
    using same assms(3)
    by (auto simp: claim_update_def replace_by_def update_where_def claimable_def c_def
        intro!: arg_cong[where f = "\<lambda>js. d\<lparr>d_jobs := js\<rparr>"] map_cong dest: same)
  then show "get_job (j_id j) (claim_update (j_id j) now d) = Some c"
    using assms(2) by (simp add: get_job_def find_by_replace_by_same c_def)
  show "count_where (claimable (j_id j)) (d_jobs d) \<noteq> 0"
    using assms(2,3) by (auto simp: count_where_zero claimable_def)
qed

lemma claim_update_db_ok [inv_intros]: "db_ok d \<Longrightarrow> db_ok (claim_update i now d)"
  by (auto simp: claim_update_def claimable_def holds_slot_def intro!: update_jobs_db_ok)

lemma claim_from_SomeE:
  assumes "db_ok d" "claim_from ids now d = (d', Some c)"
  obtains j where "j \<in> set (d_jobs d)" "j_status j \<in> {QUEUED, RETRY_WAIT}" "j_id j \<in> set ids"
    "c = j\<lparr>j_status := SENDING, j_updated_at := now\<rparr>"
    "d' = d\<lparr>d_jobs := replace_by j_id c (d_jobs d)\<rparr>"
  using assms
proof (induction ids)
  case (Cons i ids)
  show ?case
  proof (cases "count_where (claimable i) (d_jobs d) = 0")
    case True
    with Cons show ?thesis by simp
  next
    case False
    then obtain j where j: "j \<in> set (d_jobs d)" "j_id j = i" "j_status j \<in> {QUEUED, RETRY_WAIT}"
      unfolding count_where_zero by (auto simp: claimable_def)
    with False Cons.prems claim_update_hit(1,2)[OF Cons.prems(2) j(1,3), of now] show ?thesis
      by auto
  qed
qed simp

lemma claim_from_None: "snd (claim_from ids now d) = None \<Longrightarrow> db_ok d \<Longrightarrow> fst (claim_from ids now d) = d"
proof (induction ids)
  case (Cons i ids)
  show ?case
  proof (cases "count_where (claimable i) (d_jobs d) = 0")
    case False
    then obtain j where j: "j \<in> set (d_jobs d)" "j_id j = i" "j_status j \<in> {QUEUED, RETRY_WAIT}"
      unfolding count_where_zero by (auto simp: claimable_def)
    with False Cons.prems claim_update_hit(2)[OF Cons.prems(2) j(1,3), of now] show ?thesis
      by simp
  qed (use Cons in simp)
qed simp

lemma runnable_status: "runnable now j \<Longrightarrow> j_status j \<in> {QUEUED, RETRY_WAIT}"
  by (auto simp: runnable_def)

lemma claim_next_job_step:
  assumes "db_ok d"
  shows "case claim_next_job now d of
      (d', None) \<Rightarrow> d' = d \<and> \<not> (\<exists>j \<in> set (d_jobs d). runnable now j)
    | (d', Some c) \<Rightarrow> \<exists>j \<in> set (d_jobs d). runnable now j
        \<and> (\<forall>k \<in> set (d_jobs d). runnable now k \<longrightarrow> claim_order j \<le> claim_order k)
        \<and> c = j\<lparr>j_status := SENDING, j_updated_at := now\<rparr>
        \<and> d' = d\<lparr>d_jobs := replace_by j_id c (d_jobs d)\<rparr>"
proof -
  let ?js = "sort_key claim_order (filter (runnable now) (d_jobs d))"
  show ?thesis
  proof (cases ?js)
    case Nil
    then have "set ?js = {}" by simp
    then have "\<not> (\<exists>j \<in> set (d_jobs d). runnable now j)" by auto
    with Nil show ?thesis by (simp add: claim_next_job_def candidate_ids_def)
  next
    case (Cons j js)
    then have js: "set (j # js) = {k \<in> set (d_jobs d). runnable now k}"
      by (metis set_filter set_sort)
    then have j: "j \<in> set (d_jobs d)" "runnable now j" by auto
    have least: "\<forall>k \<in> set (d_jobs d). runnable now k \<longrightarrow> claim_order j \<le> claim_order k"
    proof (intro ballI impI)
      fix k assume "k \<in> set (d_jobs d)" "runnable now k"
      then have "k \<in> set (j # js)" using js by blast
      moreover have "sorted (map claim_order (j # js))" using Cons by (metis sorted_sort_key)
      ultimately show "claim_order j \<le> claim_order k" by auto
    qed
    have "candidate_ids now d = j_id j # map j_id (take 9 js)"
      using Cons by (simp add: candidate_ids_def numeral_eq_Suc)
    with claim_update_hit(1,2)[OF assms j(1) runnable_status[OF j(2)], of now]
      claim_update_hit(3)[OF assms j(1) runnable_status[OF j(2)]] j least
    show ?thesis by (auto simp: claim_next_job_def)
  qed
qed

text \<open>
  Claiming takes the first runnable job in the queue order and only that one: when a job
  is returned it was runnable, nothing runnable comes before it (jobs never delayed first,
  then the earliest retry time, then the id), it is now \<open>sending\<close> and the rest of the
  table is unchanged; nothing is returned exactly when no job is runnable, and then nothing
  changes.
\<close>

theorem claim_next_job_correct:
  assumes "db_ok d"
  shows "case claim_next_job now d of
      (d', None) \<Rightarrow> d' = d \<and> \<not> (\<exists>j \<in> set (d_jobs d). runnable now j)
    | (d', Some c) \<Rightarrow> \<exists>j \<in> set (d_jobs d). runnable now j
        \<and> (\<forall>k \<in> set (d_jobs d). runnable now k \<longrightarrow> claim_order j \<le> claim_order k)
        \<and> c = j\<lparr>j_status := SENDING, j_updated_at := now\<rparr>
        \<and> d' = d\<lparr>d_jobs := replace_by j_id c (d_jobs d)\<rparr>"
  using claim_next_job_step[OF assms] .

definition db2 :: db where
  "db2 = fst (create_job rule1 ''u2'' None 6 (fst (create_job rule1 ''u1'' None 5 db1)))"

lemma db2_ok: "db_ok db2"
  by (simp add: db2_def create_job_db_ok db1_ok)

theorem claim_next_job_correct_witness:
  "\<exists>d' c. claim_next_job 7 db2 = (d', Some c) \<and> j_status c = SENDING"
proof -
  have "\<exists>j \<in> set (d_jobs db2). runnable 7 j" by code_simp
  with claim_next_job_correct[OF db2_ok, of 7] show ?thesis
    by (cases "claim_next_job 7 db2"; cases "snd (claim_next_job 7 db2)") auto
qed

text \<open>
  The conditional UPDATE is the claim: two workers that pick from snapshots of any age
  (the candidate lists are arbitrary) never end up with the same job.
\<close>

theorem claims_never_collide:
  assumes "db_ok d" and "claim_from ids1 t1 d = (d1, Some a)"
    and "claim_from ids2 t2 d1 = (d2, Some b)"
  shows "j_id a \<noteq> j_id b"
proof -
  obtain j where j: "j \<in> set (d_jobs d)" "a = j\<lparr>j_status := SENDING, j_updated_at := t1\<rparr>"
    "d1 = d\<lparr>d_jobs := replace_by j_id a (d_jobs d)\<rparr>"
    "j_status j \<in> {QUEUED, RETRY_WAIT}"
    using claim_from_SomeE[OF assms(1,2)] by metis
  have ok1: "db_ok d1"
    using claim_update_db_ok[OF assms(1), of "j_id j" t1]
      claim_update_hit(1)[OF assms(1) j(1,4), of t1] j(2,3) by simp
  obtain k where k: "k \<in> set (d_jobs d1)" "j_status k \<in> {QUEUED, RETRY_WAIT}"
    "b = k\<lparr>j_status := SENDING, j_updated_at := t2\<rparr>"
    using claim_from_SomeE[OF ok1 assms(3)] by metis
  have "k \<in> set (replace_by j_id a (d_jobs d))" using k(1) j(3) by simp
  then have "k = a \<or> j_id k \<noteq> j_id a" using set_replace_by by metis
  moreover have "k \<noteq> a" using k(2) j(2) by auto
  moreover have "j_id b = j_id k" using k(3) by simp
  ultimately show ?thesis by metis
qed

theorem claims_never_collide_witness:
  "\<exists>d1 a d2 b. claim_from [1, 2] 7 db2 = (d1, Some a) \<and> claim_from [1, 2] 8 d1 = (d2, Some b)
     \<and> j_id a \<noteq> j_id b"
proof -
  have "snd (claim_from [1, 2] 7 db2) \<noteq> None"
    "snd (claim_from [1, 2] 8 (fst (claim_from [1, 2] 7 db2))) \<noteq> None"
    by code_simp+
  then obtain d1 a d2 b where "claim_from [1, 2] 7 db2 = (d1, Some a)"
      "claim_from [1, 2] 8 d1 = (d2, Some b)"
    by (metis fst_conv not_None_eq prod.collapse)
  with claims_never_collide[OF db2_ok this] show ?thesis by blast
qed

lemma claim_next_job_db_ok [inv_intros]:
  assumes "db_ok d" shows "db_ok (fst (claim_next_job now d))"
proof (cases "snd (claim_next_job now d)")
  case None
  with claim_from_None[of "candidate_ids now d" now d] assms show ?thesis
    by (simp add: claim_next_job_def)
next
  case (Some c)
  then obtain d' where eq: "claim_next_job now d = (d', Some c)" by (metis prod.collapse)
  then obtain j where "j \<in> set (d_jobs d)" "j_status j \<in> {QUEUED, RETRY_WAIT}"
      "c = j\<lparr>j_status := SENDING, j_updated_at := now\<rparr>"
      "d' = d\<lparr>d_jobs := replace_by j_id c (d_jobs d)\<rparr>"
    unfolding claim_next_job_def using claim_from_SomeE[OF assms] by metis
  with claim_update_hit(1)[OF assms this(1,2), of now] claim_update_db_ok[OF assms] eq
  show ?thesis by (metis fst_conv)
qed

lemma requeue_stale_db_ok [inv_intros]:
  "db_ok d \<Longrightarrow> requeue_stale_sending s now d = Inr (d', n) \<Longrightarrow> db_ok d'"
  by (auto simp: requeue_stale_sending_def stale_def holds_slot_def
      intro!: update_jobs_db_ok split: sum.splits)

text \<open>
  Recovery at start (\<open>stale_seconds = 0\<close>) leaves no job in \<open>sending\<close> whose last change
  lies before the clock's reading: each goes back to \<open>queued\<close> with its counters, its send
  cycle and so its idempotency key kept; all other jobs are untouched.
\<close>

theorem requeue_stale_recovers:
  assumes "in_time_range now"
    and "\<forall>j \<in> set (d_jobs d). j_status j = SENDING \<longrightarrow> j_updated_at j < now"
  shows "\<exists>d' n. requeue_stale_sending 0 now d = Inr (d', n)
     \<and> (\<forall>j \<in> set (d_jobs d'). j_status j \<noteq> SENDING)
     \<and> map idempotency_key (d_jobs d') = map idempotency_key (d_jobs d)
     \<and> d_jobs d' = map (\<lambda>j. if j_status j = SENDING
                            then j\<lparr>j_status := QUEUED, j_updated_at := now\<rparr> else j) (d_jobs d)
     \<and> by_status d' QUEUED = by_status d QUEUED + int n"
proof -
  have cut: "minus_seconds now 0 = Inr now"
    using assms(1) by (simp add: minus_seconds_def timedelta_def round_half_even_def add_time_def)
  have st: "stale now j \<longleftrightarrow> j_status j = SENDING" if "j \<in> set (d_jobs d)" for j
    using assms(2) that by (auto simp: stale_def)
  let ?f = "\<lambda>j. j\<lparr>j_status := QUEUED, j_updated_at := now\<rparr>"
  have eq: "update_where (stale now) ?f (d_jobs d) =
      map (\<lambda>j. if j_status j = SENDING then ?f j else j) (d_jobs d)"
    using st by (auto simp: update_where_def)
  have "count_where (\<lambda>j. j_status j = QUEUED) (update_where (stale now) ?f (d_jobs d)) =
      count_where (\<lambda>j. j_status j = QUEUED) (d_jobs d) + count_where (stale now) (d_jobs d)"
    by (rule count_where_update_where_out) (auto simp: stale_def)
  then have "by_status (d\<lparr>d_jobs := update_where (stale now) ?f (d_jobs d)\<rparr>) QUEUED =
      by_status d QUEUED + int (count_where (stale now) (d_jobs d))"
    by (simp add: by_status_def)
  then show ?thesis
    by (auto simp: requeue_stale_sending_def cut eq idempotency_key_def)
qed

theorem requeue_stale_recovers_witness:
  "\<exists>d' n. requeue_stale_sending 0 100 (fst (claim_next_job 7 db2)) = Inr (d', n)
     \<and> (\<forall>j \<in> set (d_jobs d'). j_status j \<noteq> SENDING)"
proof -
  have "in_time_range 100" by (simp add: in_time_range_def max_time_def)
  moreover have "\<forall>j \<in> set (d_jobs (fst (claim_next_job 7 db2))).
      j_status j = SENDING \<longrightarrow> j_updated_at j < 100"
    by code_simp
  ultimately show ?thesis using requeue_stale_recovers by blast
qed

section \<open>Properties of backoff and statistics\<close>

lemma max_tenth_mono: "x \<le> y \<Longrightarrow> max (1 / 10) x \<le> max (1 / 10) (y::rat)"
  by (simp add: max.coboundedI2)

text \<open>
  The retry delay: for every draw of the random source it exists (up to 1024 failures),
  lies within the jitter ratio of \<open>base * 2 ^ (n - 1)\<close> capped at the maximum, is never below
  0.1 seconds, and without jitter doubles with each failure until the cap.
\<close>

theorem backoff_delay_bounds:
  assumes "n \<le> 1024" and "0 \<le> u" "u \<le> 1"
    and "0 \<le> retry_base_seconds s" "0 \<le> retry_max_backoff_seconds s" "0 \<le> retry_jitter_ratio s"
  defines "b \<equiv> min (retry_base_seconds s * 2 ^ (n - 1)) (retry_max_backoff_seconds s)"
  shows "\<exists>x. backoff_delay n s u = Inr x
     \<and> max (1 / 10) (b * (1 - retry_jitter_ratio s)) \<le> x
     \<and> x \<le> max (1 / 10) (b * (1 + retry_jitter_ratio s))
     \<and> x \<le> max (1 / 10) (retry_max_backoff_seconds s * (1 + retry_jitter_ratio s))"
proof -
  let ?r = "retry_jitter_ratio s"
  define x where "x = max (1 / 10) (b + uniform (- (b * ?r)) (b * ?r) u)"
  have b: "0 \<le> b" "b \<le> retry_max_backoff_seconds s" using assms(4,5) by (auto simp: b_def)
  have j: "0 \<le> b * ?r" using b(1) assms(6) by simp
  have e: "backoff_delay n s u = Inr x"
    using assms(1) by (simp add: backoff_delay_def Let_def x_def b_def)
  have "0 \<le> b * ?r * u" "b * ?r * u \<le> b * ?r"
    using j assms(2,3) by (simp_all add: mult_left_le)
  then have bounds: "b * (1 - ?r) \<le> b + uniform (- (b * ?r)) (b * ?r) u"
    "b + uniform (- (b * ?r)) (b * ?r) u \<le> b * (1 + ?r)"
    by (simp_all add: uniform_def algebra_simps)
  have "b * (1 + ?r) \<le> retry_max_backoff_seconds s * (1 + ?r)"
    using b(2) assms(6) by (intro mult_right_mono) auto
  then have "b + uniform (- (b * ?r)) (b * ?r) u \<le> retry_max_backoff_seconds s * (1 + ?r)"
    using bounds(2) by linarith
  then have "max (1 / 10) (b * (1 - ?r)) \<le> x" "x \<le> max (1 / 10) (b * (1 + ?r))"
    "x \<le> max (1 / 10) (retry_max_backoff_seconds s * (1 + ?r))"
    unfolding x_def using max_tenth_mono bounds by blast+
  with e show ?thesis by blast
qed

theorem backoff_delay_bounds_witness:
  "\<exists>x. backoff_delay 3 default_settings (1 / 2) = Inr x \<and> 3 \<le> x \<and> x \<le> 5"
  using backoff_delay_bounds[of 3 "1 / 2" default_settings]
  by (auto simp: default_settings_simps)

lemma status_counts:
  "count_where holds_slot js = count_where (\<lambda>j. j_status j = QUEUED) js
     + count_where (\<lambda>j. j_status j = SENDING) js
     + count_where (\<lambda>j. j_status j = ACCEPTED) js + count_where (\<lambda>j. j_status j = DELIVERED) js
     + count_where (\<lambda>j. j_status j = RETRY_WAIT) js + count_where (\<lambda>j. j_status j = FAILED) js"
  "count_where (\<lambda>j. j_status j \<noteq> DELIVERED \<and> j_status j \<noteq> FAILED \<and> j_status j \<noteq> CANCELLED) js
     = count_where (\<lambda>j. j_status j = QUEUED) js + count_where (\<lambda>j. j_status j = SENDING) js
     + count_where (\<lambda>j. j_status j = ACCEPTED) js + count_where (\<lambda>j. j_status j = RETRY_WAIT) js"
proof (induction js)
  case (Cons j js)
  { case 1 show ?case using Cons by (cases "j_status j") (simp_all add: count_where_Cons holds_slot_def) }
  { case 2 show ?case using Cons by (cases "j_status j") (simp_all add: count_where_Cons) }
qed simp_all

text \<open>
  The statistics partition the jobs: every job that is not cancelled is counted in
  exactly one of \<open>sent\<close>, \<open>failed\<close> and \<open>queued\<close>, a cancelled one in none; \<open>sent\<close> counts
  delivered jobs and \<open>failed\<close> the abandoned ones only.
\<close>

lemma compute_stats_partition:
  "sent (compute_stats d) + failed (compute_stats d) + queued (compute_stats d)
     = int (length (filter holds_slot (d_jobs d)))
   \<and> sent (compute_stats d) = int (length (filter (\<lambda>j. j_status j = DELIVERED) (d_jobs d)))
   \<and> failed (compute_stats d) = int (length (filter (\<lambda>j. j_status j = FAILED) (d_jobs d)))
   \<and> queued (compute_stats d) = int (length (filter (\<lambda>j. j_status j \<noteq> DELIVERED
        \<and> j_status j \<noteq> FAILED \<and> j_status j \<noteq> CANCELLED) (d_jobs d)))"
  using status_counts[of "d_jobs d"]
  by (simp add: compute_stats_def by_status_def pending_job_statuses_def count_where_def)

end
