(* ===== verification/Matching.thy ===== *)
theory Matching
  imports Models
begin

text \<open>
  \<^verbatim>\<open>app/services/matching.py\<close>: keyword normalisation and the matching of a comment text
  against the active rules.
\<close>

definition normalize_keyword :: "string \<Rightarrow> string" where
  "normalize_keyword keyword = lower (strip keyword)"

definition text_matches :: "string \<Rightarrow> string option \<Rightarrow> bool" where
  "text_matches keyword_normalized txt = (case txt of
       None \<Rightarrow> False
     | Some t \<Rightarrow> if keyword_normalized = [] \<or> t = [] then False
                 else contains (lower t) keyword_normalized)"

definition active_rules :: "db \<Rightarrow> rule list" where
  "active_rules d = filter (\<lambda>r. r_is_active r = 1) (d_rules d)"

definition find_matching_rules :: "db \<Rightarrow> string option \<Rightarrow> rule list" where
  "find_matching_rules d txt = (case txt of
       None \<Rightarrow> []
     | Some t \<Rightarrow> if t = [] then []
                 else let lowered = lower t
                      in filter (\<lambda>r. contains lowered (r_keyword_normalized r)) (active_rules d))"

text \<open>What \<open>POST /rules\<close> keeps of every rule: its normalised keyword is that of its keyword
  and is not empty.\<close>

definition rules_ok :: "db \<Rightarrow> bool" where
  "rules_ok d \<longleftrightarrow> (\<forall>r \<in> set (d_rules d).
     r_keyword_normalized r = normalize_keyword (r_keyword r) \<and> r_keyword_normalized r \<noteq> [])"

lemma find_matching_rules_subset: "set (find_matching_rules d txt) \<subseteq> set (d_rules d)"
  by (auto simp: find_matching_rules_def active_rules_def Let_def split: option.splits)

lemma find_matching_rules_rules_cong:
  "d_rules d = d_rules d' \<Longrightarrow> find_matching_rules d t = find_matching_rules d' t"
  by (cases t) (simp_all add: find_matching_rules_def active_rules_def)

lemma find_matching_rules_distinct:
  "db_ok d \<Longrightarrow> distinct (map r_id (find_matching_rules d t))"
  by (auto simp: find_matching_rules_def active_rules_def db_ok_def Let_def distinct_map_filter
      split: option.splits)

lemma sublist_lower_iff:
  "sublist (lower k) (lower t) \<longleftrightarrow> (\<exists>pre mid post. t = pre @ mid @ post \<and> lower mid = lower k)"
proof
  assume "sublist (lower k) (lower t)"
  then obtain a b where "lower t = a @ lower k @ b" by (auto simp: sublist_def)
  then have "map lower_char t = a @ (lower k @ b)" by (simp add: lower_def)
  then obtain pre r where "t = pre @ r" and r: "lower k @ b = map lower_char r"
    by (metis map_eq_append_conv)
  moreover obtain mid post where "r = mid @ post" "lower mid = lower k"
    using r[symmetric] by (metis lower_def map_eq_append_conv)
  ultimately show "\<exists>pre mid post. t = pre @ mid @ post \<and> lower mid = lower k" by blast
next
  assume "\<exists>pre mid post. t = pre @ mid @ post \<and> lower mid = lower k"
  then show "sublist (lower k) (lower t)" by (metis lower_append sublist_appendI)
qed

text \<open>
  C31: Matching is what the product promises: with rules as \<open>POST /rules\<close> stores them, a rule
  is selected for a text exactly when it is active and its keyword, trimmed, occurs somewhere
  in the text up to letter case.  The list agrees with filtering by \<open>text_matches\<close> (whose
  guard against an empty keyword \<open>find_matching_rules\<close> does not repeat), and keeps the
  order of the table.
\<close>

theorem find_matching_rules_correct:
  assumes "rules_ok d"
  shows "(r \<in> set (find_matching_rules d (Some t)) \<longleftrightarrow>
            r \<in> set (d_rules d) \<and> r_is_active r = 1 \<and>
            (\<exists>pre mid post. t = pre @ mid @ post \<and> lower mid = lower (strip (r_keyword r))))
     \<and> find_matching_rules d txt =
         filter (\<lambda>r. r_is_active r = 1 \<and> text_matches (r_keyword_normalized r) txt) (d_rules d)"
proof -
  have key: "r_keyword_normalized r = lower (strip (r_keyword r))" "lower (strip (r_keyword r)) \<noteq> []"
    if "r \<in> set (d_rules d)" for r
    using assms that by (auto simp: rules_ok_def normalize_keyword_def)
  have eq: "find_matching_rules d v =
      filter (\<lambda>r. r_is_active r = 1 \<and> text_matches (r_keyword_normalized r) v) (d_rules d)" for v
    using assms
    by (auto simp: find_matching_rules_def active_rules_def text_matches_def Let_def rules_ok_def
        intro!: filter_cong split: option.splits)
  have "text_matches (r_keyword_normalized r) (Some t) \<longleftrightarrow>
      (\<exists>pre mid post. t = pre @ mid @ post \<and> lower mid = lower (strip (r_keyword r)))"
    if "r \<in> set (d_rules d)" for r
    using key[OF that] sublist_lower_iff[of "strip (r_keyword r)" t]
    by (cases "t = []") (simp_all add: text_matches_def contains_iff_sublist)
  then show ?thesis using eq by auto
qed

definition rule_example :: rule where
  "rule_example = \<lparr>r_id = ''r1'', r_keyword = ''PRICE'', r_keyword_normalized = ''price'',
     r_dm_message = ''list'', r_is_active = 1, r_created_at = 0\<rparr>"

theorem find_matching_rules_correct_witness:
  "rule_example \<in> set (find_matching_rules (empty_db\<lparr>d_rules := [rule_example]\<rparr>) (Some ''the Price?''))"
proof -
  have ok: "rules_ok (empty_db\<lparr>d_rules := [rule_example]\<rparr>)"
    by code_simp
  have occ: "''the Price?'' = ''the '' @ ''Price'' @ ''?'' \<and> lower ''Price'' = lower (strip (r_keyword rule_example))"
    by code_simp
  have "rule_example \<in> set (d_rules (empty_db\<lparr>d_rules := [rule_example]\<rparr>))"
    "r_is_active rule_example = 1"
    by (simp_all add: rule_example_def)
  with occ find_matching_rules_correct[OF ok, of rule_example "''the Price?''" None]
  show ?thesis by blast
qed

end
