(* ===== verification/Clock.thy ===== *)
theory Clock
  imports PyStd
begin

text \<open>
  \<^verbatim>\<open>app/clock.py\<close>: normalising timestamps to naive UTC.  \<open>datetime.fromisoformat\<close> is an
  argument: \<open>None\<close> is its \<open>ValueError\<close>, otherwise it gives the local time and, for an
  aware value, the offset from UTC (both in microseconds).
\<close>

record datetime =
  dt_local :: time
  dt_tzinfo :: "time option"

definition to_naive_utc :: "datetime \<Rightarrow> time res" where
  "to_naive_utc v = (case dt_tzinfo v of
       None \<Rightarrow> Inr (dt_local v)
     | Some off \<Rightarrow> add_time (dt_local v) (- off))"

definition parse_iso8601 ::
  "(string \<Rightarrow> datetime option) \<Rightarrow> string option \<Rightarrow> time option res" where
  "parse_iso8601 fromisoformat v = (case v of
       None \<Rightarrow> Inr None
     | Some s \<Rightarrow> if s = [] then Inr None else
         (let t = strip s;
              t' = (if t \<noteq> [] \<and> (last t = CHR ''z'' \<or> last t = CHR ''Z'')
                    then butlast t @ ''+00:00'' else t)
          in case fromisoformat t' of
               None \<Rightarrow> Inr None
             | Some dt \<Rightarrow> (case to_naive_utc dt of Inl e \<Rightarrow> Inl e | Inr u \<Rightarrow> Inr (Some u))))"

lemma to_naive_utc_range:
  "in_time_range (dt_local v) \<Longrightarrow> to_naive_utc v = Inr u \<Longrightarrow> in_time_range u"
  by (auto simp: to_naive_utc_def add_time_def split: option.splits if_splits)

definition utc_representable :: "(string \<Rightarrow> datetime option) \<Rightarrow> bool" where
  "utc_representable parse \<longleftrightarrow> (\<forall>s dt off. parse s = Some dt \<longrightarrow> dt_tzinfo dt = Some off \<longrightarrow>
     in_time_range (dt_local dt - off))"

lemma parse_iso8601_ok: "utc_representable parse \<Longrightarrow> \<exists>r. parse_iso8601 parse v = Inr r"
  by (cases v)
    (auto simp: parse_iso8601_def Let_def utc_representable_def to_naive_utc_def add_time_def
      split: option.splits sum.splits)

text \<open>
  \<open>parse_iso8601\<close> never raises for a timestamp whose UTC value is a representable
  datetime: unparsable text gives \<open>None\<close> (stored as NULL), and \<open>text + "Z"\<close> means the
  same as \<open>text + "+00:00"\<close>.  The range condition is needed: it is the only way to raise.
\<close>

theorem parse_iso8601_total:
  assumes "utc_representable parse"
  shows "(\<exists>r. parse_iso8601 parse v = Inr r)
     \<and> (\<forall>s. s \<noteq> [] \<longrightarrow> \<not> is_space (hd s) \<longrightarrow>
            parse_iso8601 parse (Some (s @ ''Z'')) = parse_iso8601 parse (Some (s @ ''+00:00'')))"
proof -
  have "\<exists>r. parse_iso8601 parse v = Inr r" by (rule parse_iso8601_ok[OF assms])
  moreover have "parse_iso8601 parse (Some (s @ ''Z'')) = parse_iso8601 parse (Some (s @ ''+00:00''))"
    if "s \<noteq> []" "\<not> is_space (hd s)" for s
  proof -
    have "strip (s @ ''Z'') = s @ ''Z''" "strip (s @ ''+00:00'') = s @ ''+00:00''"
      using that by (auto intro!: strip_id simp: is_space_def code_def)
    then show ?thesis by (simp add: parse_iso8601_def Let_def)
  qed
  ultimately show ?thesis by blast
qed

definition iso_plain :: "string \<Rightarrow> datetime option" where
  "iso_plain s = (if s = ''2026-08-10T09:14:22+00:00''
     then Some \<lparr>dt_local = 63890000000000000, dt_tzinfo = Some 0\<rparr> else None)"

theorem parse_iso8601_total_witness:
  "(\<exists>r. parse_iso8601 iso_plain (Some ''2026-08-10T09:14:22Z'') = Inr r)
   \<and> parse_iso8601 iso_plain (Some ''2026-08-10T09:14:22Z'')
     = parse_iso8601 iso_plain (Some ''2026-08-10T09:14:22+00:00'')"
proof -
  have h: "utc_representable iso_plain"
    by (auto simp: utc_representable_def iso_plain_def in_time_range_def max_time_def
        split: if_splits)
  have "\<not> is_space (hd ''2026-08-10T09:14:22'')" by (simp add: is_space_def code_def)
  then have "parse_iso8601 iso_plain (Some (''2026-08-10T09:14:22'' @ ''Z''))
      = parse_iso8601 iso_plain (Some (''2026-08-10T09:14:22'' @ ''+00:00''))"
    using parse_iso8601_total[of iso_plain, OF h] by blast
  moreover have "\<exists>r. parse_iso8601 iso_plain (Some ''2026-08-10T09:14:22Z'') = Inr r"
    using parse_iso8601_total[of iso_plain, OF h] by blast
  ultimately show ?thesis by simp
qed

definition iso_example :: "string \<Rightarrow> datetime option" where
  "iso_example s = (if s = ''0001-01-01T00:00:00+01:00''
     then Some \<lparr>dt_local = 0, dt_tzinfo = Some 3600000000\<rparr> else None)"

text \<open>
  A well-formed timestamp can still raise: \<open>astimezone\<close> overflows for a local time near
  year 1 with a positive offset, and \<open>parse_iso8601\<close> catches \<open>ValueError\<close> only.  So
  the promise that an unusable \<open>sent_at\<close> is stored as NULL does not hold there.
\<close>

theorem parse_iso8601_overflow:
  "parse_iso8601 iso_example (Some ''0001-01-01T00:00:00+01:00'') = Inl OverflowError
   \<and> parse_iso8601 iso_example (Some ''nonsense'') = Inr None"
  by (simp add: parse_iso8601_def iso_example_def Let_def to_naive_utc_def add_time_def
      in_time_range_def strip_def lstrip_def is_space_def code_def)

end
