(* ===== verification/Schemas.thy ===== *)
theory Schemas
  imports PyStd
begin

text \<open>
  \<^verbatim>\<open>app/schemas.py\<close>: the request and response models.  The field checks that the model
  declarations ask \<open>pydantic\<close> for (types, optional fields and defaults, length limits, the
  alias \<open>from\<close> with \<open>populate_by_name\<close>) are written out as functions on parsed JSON;
  \<open>None\<close> is a validation error.
\<close>

record rule_create =
  rc_keyword :: string
  rc_dm_message :: string

record rule_out =
  ro_rule_id :: string
  ro_keyword :: string
  ro_dm_message :: string

record webhook_user =
  wu_user_id :: "string option"
  wu_username :: "string option"

record webhook_data =
  wd_comment_id :: "string option"
  wd_post_id :: "string option"
  wd_text :: "string option"
  wd_created_at :: "string option"
  wd_from :: "webhook_user option"

record webhook_event =
  we_event_id :: string
  we_event_type :: string
  we_sent_at :: "string option"
  we_data :: webhook_data

record webhook_ack =
  wa_status :: string
  wa_event_id :: string
  wa_duplicate :: bool

record stats_out =
  so_sent :: int
  so_failed :: int
  so_queued :: int
  so_duplicates_blocked :: int

definition str_field :: "(string \<times> json) list \<Rightarrow> string \<Rightarrow> nat \<Rightarrow> nat \<Rightarrow> string option" where
  "str_field d k lo hi = (case map_of d k of
       Some (JStr s) \<Rightarrow> if lo \<le> length s \<and> length s \<le> hi then Some s else None
     | _ \<Rightarrow> None)"

definition opt_str_field :: "(string \<times> json) list \<Rightarrow> string \<Rightarrow> string option option" where
  "opt_str_field d k = (case map_of d k of
       None \<Rightarrow> Some None
     | Some JNull \<Rightarrow> Some None
     | Some (JStr s) \<Rightarrow> Some (Some s)
     | _ \<Rightarrow> None)"

definition validate_rule_create :: "json \<Rightarrow> rule_create option" where
  "validate_rule_create v = (case v of
       JObj d \<Rightarrow> (case (str_field d ''keyword'' 0 255, str_field d ''dm_message'' 0 4000) of
           (Some k, Some m) \<Rightarrow> Some \<lparr>rc_keyword = k, rc_dm_message = m\<rparr> | _ \<Rightarrow> None)
     | _ \<Rightarrow> None)"

definition validate_user :: "(string \<times> json) list \<Rightarrow> webhook_user option" where
  "validate_user d = (case (opt_str_field d ''user_id'', opt_str_field d ''username'') of
       (Some u, Some n) \<Rightarrow> Some \<lparr>wu_user_id = u, wu_username = n\<rparr> | _ \<Rightarrow> None)"

definition validate_from :: "(string \<times> json) list \<Rightarrow> webhook_user option option" where
  "validate_from d =
     (case (case map_of d ''from'' of Some v \<Rightarrow> Some v | None \<Rightarrow> map_of d ''from_'') of
        None \<Rightarrow> Some None
      | Some JNull \<Rightarrow> Some None
      | Some (JObj u) \<Rightarrow> map_option Some (validate_user u)
      | _ \<Rightarrow> None)"

definition default_data :: webhook_data where
  "default_data = \<lparr>wd_comment_id = None, wd_post_id = None, wd_text = None,
                   wd_created_at = None, wd_from = None\<rparr>"

definition validate_data :: "(string \<times> json) list \<Rightarrow> webhook_data option" where
  "validate_data d =
     (case (opt_str_field d ''comment_id'', opt_str_field d ''post_id'', opt_str_field d ''text'',
            opt_str_field d ''created_at'', validate_from d) of
        (Some c, Some p, Some t, Some a, Some f) \<Rightarrow>
          Some \<lparr>wd_comment_id = c, wd_post_id = p, wd_text = t, wd_created_at = a, wd_from = f\<rparr>
      | _ \<Rightarrow> None)"

definition validate_event :: "json \<Rightarrow> webhook_event option" where
  "validate_event v = (case v of
       JObj d \<Rightarrow>
         (case (str_field d ''event_id'' 1 128, str_field d ''event_type'' 1 64,
                opt_str_field d ''sent_at'',
                case map_of d ''data'' of
                  None \<Rightarrow> Some default_data | Some (JObj o') \<Rightarrow> validate_data o' | _ \<Rightarrow> None) of
            (Some i, Some ty, Some s, Some dat) \<Rightarrow>
              Some \<lparr>we_event_id = i, we_event_type = ty, we_sent_at = s, we_data = dat\<rparr>
          | _ \<Rightarrow> None)
     | _ \<Rightarrow> None)"

lemma str_field_Some: "str_field d k lo hi = Some s \<longleftrightarrow>
    map_of d k = Some (JStr s) \<and> lo \<le> length s \<and> length s \<le> hi"
  by (auto simp: str_field_def split: option.splits json.splits)

lemma validate_event_event_id:
  "validate_event v = Some p \<Longrightarrow> we_event_id p \<noteq> [] \<and> length (we_event_id p) \<le> 128
     \<and> we_event_type p \<noteq> [] \<and> length (we_event_type p) \<le> 64"
  by (auto simp: validate_event_def str_field_Some split: json.splits option.splits)

end
