(* ===== verification/Events.thy ===== *)
theory Events
  imports Jobs Matching Clock Schemas
begin

text \<open>
  \<^verbatim>\<open>app/services/events.py\<close>: a webhook is stored once, later matched against the rules.
  All readings of \<open>utcnow()\<close> inside one operation are the one argument \<open>now\<close>.  The
  savepoint around an insert is the \<open>res\<close> of that insert: a refused insert leaves the
  database as it was.
\<close>

definition event_comment_created :: string where
  "event_comment_created = ''comment.created''"

definition event_comment_deleted :: string where
  "event_comment_deleted = ''comment.deleted''"

section \<open>Ingestion\<close>

record ingest_result =
  ir_duplicate :: bool
  ir_event_pk :: "nat option"

definition comment_is_deleted :: "string \<Rightarrow> db \<Rightarrow> bool" where
  "comment_is_deleted comment_id d \<longleftrightarrow> comment_id \<in> fst ` set (d_deleted d)"

text \<open>\<open>if x\<close> for a value that is \<open>None\<close> or a string.\<close>

definition given :: "string option \<Rightarrow> bool" where
  "given v \<longleftrightarrow> (case v of None \<Rightarrow> False | Some s \<Rightarrow> s \<noteq> [])"

definition handle_duplicate_event :: "settings \<Rightarrow> webhook_event \<Rightarrow> db \<Rightarrow> db" where
  "handle_duplicate_event s payload d =
     (let d1 = increment DUPLICATE_EVENTS 1 d;
          dat = we_data payload
      in if \<not> count_duplicate_events_as_blocked s then d1
         else if we_event_type payload \<noteq> event_comment_created then d1
         else (case wd_from dat of
             None \<Rightarrow> d1
           | Some sender \<Rightarrow>
               if \<not> given (wu_user_id sender) then d1
               else if given (wd_comment_id dat) \<and> comment_is_deleted (the (wd_comment_id dat)) d1
                 then d1
               else
                 (let blocked = length (find_matching_rules d1 (wd_text dat))
                  in if blocked \<noteq> 0 then increment DUPLICATES_BLOCKED (int blocked) d1 else d1)))"

definition new_event :: "webhook_event \<Rightarrow> time option \<Rightarrow> time \<Rightarrow> event" where
  "new_event payload ts now =
     (let dat = we_data payload in \<lparr>
        e_id = 0, e_event_id = we_event_id payload, e_event_type = we_event_type payload,
        e_comment_id = wd_comment_id dat, e_post_id = wd_post_id dat,
        e_user_id = (case wd_from dat of None \<Rightarrow> None | Some u \<Rightarrow> wu_user_id u),
        e_username = (case wd_from dat of None \<Rightarrow> None | Some u \<Rightarrow> wu_username u),
        e_text = wd_text dat, e_sent_at = ts, e_received_at = now, e_processed_at = None,
        e_status = RECEIVED \<rparr>)"

definition ingest_event ::
  "(string \<Rightarrow> datetime option) \<Rightarrow> settings \<Rightarrow> webhook_event \<Rightarrow> time \<Rightarrow> db
     \<Rightarrow> (db \<times> ingest_result) res" where
  "ingest_event fromisoformat s payload now d =
     (case parse_iso8601 fromisoformat (we_sent_at payload) of
        Inl e \<Rightarrow> Inl e
      | Inr ts \<Rightarrow>
          (case insert_event (new_event payload ts now) d of
             Inl _ \<Rightarrow> Inr (handle_duplicate_event s payload d,
                           \<lparr>ir_duplicate = True, ir_event_pk = None\<rparr>)
           | Inr (d', pk) \<Rightarrow> Inr (increment EVENTS_RECEIVED 1 d',
                           \<lparr>ir_duplicate = False, ir_event_pk = Some pk\<rparr>)))"

section \<open>Processing\<close>

definition pending_event :: "event \<Rightarrow> bool" where
  "pending_event e \<longleftrightarrow> e_status e = RECEIVED"

text \<open>The conditional UPDATE of one claim, then the loop over the selected ids.\<close>

definition claim_event :: "nat \<Rightarrow> db \<Rightarrow> db" where
  "claim_event i d = d\<lparr>d_events := update_where (\<lambda>e. e_id e = i \<and> pending_event e)
     (\<lambda>e. e\<lparr>e_status := PROCESSING\<rparr>) (d_events d)\<rparr>"

fun claim_events :: "nat list \<Rightarrow> db \<Rightarrow> db \<times> event list" where
  "claim_events [] d = (d, [])"
| "claim_events (i # ids) d =
     (let rowcount = count_where (\<lambda>e. e_id e = i \<and> pending_event e) (d_events d);
          d1 = claim_event i d;
          (d2, claimed) = claim_events ids d1
      in if rowcount \<noteq> 0
         then (d2, (case get_event i d1 of None \<Rightarrow> claimed | Some e \<Rightarrow> e # claimed))
         else (d2, claimed))"

definition pending_ids :: "nat \<Rightarrow> db \<Rightarrow> nat list" where
  "pending_ids limit d = take limit (sort (map e_id (filter pending_event (d_events d))))"

definition claim_pending_events :: "nat \<Rightarrow> db \<Rightarrow> db \<times> event list" where
  "claim_pending_events limit d = claim_events (pending_ids limit d) d"

fun create_jobs :: "rule list \<Rightarrow> string \<Rightarrow> string option \<Rightarrow> time \<Rightarrow> db \<Rightarrow> db" where
  "create_jobs [] user_id comment_id now d = d"
| "create_jobs (r # rs) user_id comment_id now d =
     create_jobs rs user_id comment_id now (fst (create_job r user_id comment_id now d))"

definition process_comment_created :: "event \<Rightarrow> time \<Rightarrow> db \<Rightarrow> db \<times> event_status" where
  "process_comment_created e now d =
     (if \<not> given (e_user_id e) then (d, IGNORED)
      else if given (e_comment_id e) \<and> comment_is_deleted (the (e_comment_id e)) d then (d, IGNORED)
      else (create_jobs (find_matching_rules d (e_text e)) (the (e_user_id e)) (e_comment_id e) now d,
            PROCESSED))"

definition process_comment_deleted :: "event \<Rightarrow> time \<Rightarrow> db \<Rightarrow> db \<times> event_status" where
  "process_comment_deleted e now d =
     (if \<not> given (e_comment_id e) then (d, IGNORED)
      else
        let comment_id = the (e_comment_id e);
            d1 = (if \<not> comment_is_deleted comment_id d
                  then (case insert_deleted comment_id now d of Inl _ \<Rightarrow> d | Inr d' \<Rightarrow> d')
                  else d)
        in (fst (cancel_jobs_for_comment comment_id now d1), PROCESSED))"

text \<open>The flush of the two attributes that processing sets on the event.\<close>

definition finish_event :: "event \<Rightarrow> event_status \<Rightarrow> time \<Rightarrow> db \<Rightarrow> db" where
  "finish_event e st now d = d\<lparr>d_events := update_where (\<lambda>x. e_id x = e_id e)
     (\<lambda>x. x\<lparr>e_status := st, e_processed_at := Some now\<rparr>) (d_events d)\<rparr>"

definition process_event :: "event \<Rightarrow> time \<Rightarrow> db \<Rightarrow> db" where
  "process_event e now d =
     (let (d', st) =
        (if e_event_type e = event_comment_created then process_comment_created e now d
         else if e_event_type e = event_comment_deleted then process_comment_deleted e now d
         else (d, IGNORED))
      in finish_event e st now d')"

text \<open>
  What the database does to one event of the batch: nothing, an error while the event is
  processed or committed (rolled back), or an error in the recovery UPDATE as well.
\<close>

datatype event_fault = NO_FAULT | PROCESS_FAULT | RECOVERY_FAULT

definition release_event :: "nat \<Rightarrow> db \<Rightarrow> db" where
  "release_event i d = d\<lparr>d_events := update_where (\<lambda>x. e_id x = i)
     (\<lambda>x. x\<lparr>e_status := RECEIVED\<rparr>) (d_events d)\<rparr>"

fun process_loop ::
  "(nat \<Rightarrow> event_fault) \<Rightarrow> event list \<Rightarrow> time \<Rightarrow> nat \<Rightarrow> db \<Rightarrow> db \<times> nat res" where
  "process_loop faults [] now handled d = (d, Inr handled)"
| "process_loop faults (e # es) now handled d =
     (case faults (e_id e) of
        NO_FAULT \<Rightarrow> process_loop faults es now (handled + 1) (process_event e now d)
      | PROCESS_FAULT \<Rightarrow> process_loop faults es now handled (release_event (e_id e) d)
      | RECOVERY_FAULT \<Rightarrow> (d, Inl DatabaseError))"

definition process_pending_events ::
  "(nat \<Rightarrow> event_fault) \<Rightarrow> nat \<Rightarrow> time \<Rightarrow> db \<Rightarrow> db \<times> nat res" where
  "process_pending_events faults limit now d =
     (let (d1, events) = claim_pending_events limit d in process_loop faults events now 0 d1)"

definition requeue_stuck_events :: "db \<Rightarrow> db \<times> nat" where
  "requeue_stuck_events d =
     (d\<lparr>d_events := update_where (\<lambda>e. e_status e = PROCESSING) (\<lambda>e. e\<lparr>e_status := RECEIVED\<rparr>)
          (d_events d)\<rparr>,
      count_where (\<lambda>e. e_status e = PROCESSING) (d_events d))"

section \<open>Frames and the schema invariant\<close>

lemma given_iff: "given v \<longleftrightarrow> (\<exists>s. v = Some s \<and> s \<noteq> [])"
  by (auto simp: given_def split: option.splits)

lemma handle_duplicate_event_frame [simp, frame_simps]:
  "d_rules (handle_duplicate_event s p d) = d_rules d"
  "d_events (handle_duplicate_event s p d) = d_events d"
  "d_jobs (handle_duplicate_event s p d) = d_jobs d"
  "d_deleted (handle_duplicate_event s p d) = d_deleted d"
  "d_send_log (handle_duplicate_event s p d) = d_send_log d"
  by (auto simp: handle_duplicate_event_def Let_def split: option.splits)

lemma handle_duplicate_event_db_ok [inv_intros]:
  "db_ok d \<Longrightarrow> db_ok (handle_duplicate_event s p d)"
  by (auto simp: handle_duplicate_event_def Let_def increment_db_ok split: option.splits)

lemma handle_duplicate_event_counters:
  "get_counter DUPLICATE_EVENTS (handle_duplicate_event s p d) = get_counter DUPLICATE_EVENTS d + 1"
  "get_counter EVENTS_RECEIVED (handle_duplicate_event s p d) = get_counter EVENTS_RECEIVED d"
  "\<not> count_duplicate_events_as_blocked s \<Longrightarrow>
   get_counter DUPLICATES_BLOCKED (handle_duplicate_event s p d) = get_counter DUPLICATES_BLOCKED d"
  by (auto simp: handle_duplicate_event_def Let_def split: option.splits)

lemma create_jobs_frame [simp, frame_simps]:
  "d_rules (create_jobs rs u c now d) = d_rules d"
  "d_events (create_jobs rs u c now d) = d_events d"
  "d_deleted (create_jobs rs u c now d) = d_deleted d"
  "d_send_log (create_jobs rs u c now d) = d_send_log d"
  by (induction rs arbitrary: d) simp_all

lemma create_jobs_db_ok [inv_intros]: "db_ok d \<Longrightarrow> db_ok (create_jobs rs u c now d)"
  by (induction rs arbitrary: d) (simp_all add: create_job_db_ok)

section \<open>Properties of ingestion\<close>

lemma ingest_event_cases:
  assumes "parse_iso8601 parse (we_sent_at p) = Inr ts"
  obtains "we_event_id p \<in> e_event_id ` set (d_events d)"
      "ingest_event parse s p now d =
         Inr (handle_duplicate_event s p d, \<lparr>ir_duplicate = True, ir_event_pk = None\<rparr>)"
    | pk where "we_event_id p \<notin> e_event_id ` set (d_events d)"
      "pk = next_pk (map e_id (d_events d))"
      "ingest_event parse s p now d =
         Inr (increment EVENTS_RECEIVED 1
                (d\<lparr>d_events := d_events d @ [(new_event p ts now)\<lparr>e_id := pk\<rparr>]\<rparr>),
              \<lparr>ir_duplicate = False, ir_event_pk = Some pk\<rparr>)"
  using assms
  by (cases "we_event_id p \<in> e_event_id ` set (d_events d)")
    (auto simp: ingest_event_def insert_event_def Let_def new_event_def)

lemma ingest_event_db_ok [inv_intros]:
  "db_ok d \<Longrightarrow> ingest_event parse s p now d = Inr (d', r) \<Longrightarrow> db_ok d'"
  by (auto simp: ingest_event_def handle_duplicate_event_db_ok increment_db_ok insert_event_db_ok
      split: sum.splits)

lemma ingest_event_jobs:
  "ingest_event parse s p now d = Inr (d', r) \<Longrightarrow> d_jobs d' = d_jobs d \<and> d_rules d' = d_rules d
     \<and> d_deleted d' = d_deleted d \<and> d_send_log d' = d_send_log d"
  by (auto simp: ingest_event_def insert_event_def Let_def split: sum.splits if_splits)

text \<open>A sequence of webhook deliveries, each stored in its own transaction.\<close>

fun ingest_all ::
  "(string \<Rightarrow> datetime option) \<Rightarrow> settings \<Rightarrow> (webhook_event \<times> time) list \<Rightarrow> db \<Rightarrow> db" where
  "ingest_all parse s [] d = d"
| "ingest_all parse s ((p, now) # ps) d =
     ingest_all parse s ps (fst (session_scope (ingest_event parse s p now) d))"

lemma ingest_all_step:
  assumes "utc_representable parse"
  obtains d1 where "fst (session_scope (ingest_event parse s p now) d) = d1"
    "e_event_id ` set (d_events d1) = insert (we_event_id p) (e_event_id ` set (d_events d))"
    "prefix (d_events d) (d_events d1)" "d_jobs d1 = d_jobs d" "db_ok d \<Longrightarrow> db_ok d1"
    "get_counter EVENTS_RECEIVED d1 - int (length (d_events d1))
       = get_counter EVENTS_RECEIVED d - int (length (d_events d))"
    "get_counter EVENTS_RECEIVED d1 + get_counter DUPLICATE_EVENTS d1
       = get_counter EVENTS_RECEIVED d + get_counter DUPLICATE_EVENTS d + 1"
proof -
  obtain ts where ts: "parse_iso8601 parse (we_sent_at p) = Inr ts"
    using parse_iso8601_ok[OF assms] by blast
  show ?thesis
  proof (cases rule: ingest_event_cases[OF ts, of d s now])
    case 1
    show ?thesis
      by (rule that[OF refl])
        (use 1 in \<open>auto simp: session_scope_def handle_duplicate_event_counters
          handle_duplicate_event_db_ok insert_absorb\<close>)
  next
    case (2 pk)
    show ?thesis
      by (rule that[OF refl])
        (use 2 ingest_event_db_ok[OF _ 2(3)] in
          \<open>auto simp: session_scope_def new_event_def Let_def\<close>)
  qed
qed


definition delivery_example :: webhook_event where
  "delivery_example = \<lparr>we_event_id = ''evt_1'', we_event_type = ''comment.created'',
     we_sent_at = None, we_data = default_data\<lparr>wd_comment_id := Some ''c1'',
       wd_text := Some ''PRICE please'',
       wd_from := Some \<lparr>wu_user_id = Some ''u1'', wu_username = None\<rparr>\<rparr>\<rparr>"


section \<open>Properties of processing\<close>

lemma create_job_prefix: "prefix (d_jobs d) (d_jobs (fst (create_job r u c now d)))"
  by (auto simp: create_job_def insert_job_def Let_def split: sum.splits if_splits)

lemma create_jobs_prefix: "prefix (d_jobs d) (d_jobs (create_jobs rs u c now d))"
  by (induction rs arbitrary: d) (auto intro: prefix_order.order_trans create_job_prefix)

lemma slot_taken_mono: "prefix (d_jobs d) (d_jobs d') \<Longrightarrow> slot_taken r u d \<Longrightarrow> slot_taken r u d'"
  by (auto simp: slot_taken_def prefix_def)

lemma create_job_takes:
  "r \<in> set (d_rules d) \<Longrightarrow> slot_taken (r_id r) u (fst (create_job r u c now d))"
  by (cases "slot_taken (r_id r) u d")
    (auto simp: create_job_taken create_job_free slot_taken_def)

lemma create_job_new:
  "j \<in> set (d_jobs (fst (create_job r u c now d))) \<Longrightarrow> j \<in> set (d_jobs d) \<or>
     (j_status j = QUEUED \<and> j_user_id j = u \<and> j_comment_id j = c \<and> j_rule_id j = r_id r
       \<and> j_message j = r_dm_message r \<and> j_attempts j = 0 \<and> j_send_cycle j = 0
       \<and> j_transient_failures j = 0)"
  by (auto simp: create_job_def insert_job_def Let_def split: sum.splits if_splits)

lemma create_job_accounting:
  "r \<in> set (d_rules d) \<Longrightarrow>
   int (length (d_jobs (fst (create_job r u c now d))))
     + get_counter DUPLICATES_BLOCKED (fst (create_job r u c now d))
   = int (length (d_jobs d)) + get_counter DUPLICATES_BLOCKED d + 1"
  by (cases "slot_taken (r_id r) u d") (auto simp: create_job_taken create_job_free)

lemma create_jobs_accounting:
  assumes "set rs \<subseteq> set (d_rules d)"
  shows "int (length (d_jobs (create_jobs rs u c now d)))
      + get_counter DUPLICATES_BLOCKED (create_jobs rs u c now d)
    = int (length (d_jobs d)) + get_counter DUPLICATES_BLOCKED d + int (length rs)"
    and "r \<in> set rs \<Longrightarrow> slot_taken (r_id r) u (create_jobs rs u c now d)"
    and "j \<in> set (d_jobs (create_jobs rs u c now d)) \<Longrightarrow> j \<in> set (d_jobs d) \<or>
      (j_status j = QUEUED \<and> j_user_id j = u \<and> j_comment_id j = c
        \<and> (\<exists>r \<in> set rs. j_rule_id j = r_id r \<and> j_message j = r_dm_message r))"
  using assms
proof (induction rs arbitrary: d)
  case (Cons r0 rs)
  { case 1
    from Cons.IH(1)[of "fst (create_job r0 u c now d)"] 1 create_job_accounting[of r0 d u c now]
    show ?case by simp }
  { case 2
    then show ?case
      using Cons.IH(2)[of "fst (create_job r0 u c now d)"] create_job_takes[of r0 d u c now]
        slot_taken_mono[OF create_jobs_prefix] by auto }
  { case 3
    then show ?case
      using Cons.IH(3)[of "fst (create_job r0 u c now d)"] create_job_new[of j r0 u c now d]
      by auto }
qed simp_all

lemma finish_event_frame [simp, frame_simps]:
  "d_rules (finish_event e st now d) = d_rules d" "d_jobs (finish_event e st now d) = d_jobs d"
  "d_deleted (finish_event e st now d) = d_deleted d"
  "d_send_log (finish_event e st now d) = d_send_log d"
  "get_counter k (finish_event e st now d) = get_counter k d"
  by (simp_all add: finish_event_def)

lemma insert_deleted_frame:
  "insert_deleted c now d = Inr d' \<Longrightarrow> d_rules d' = d_rules d \<and> d_events d' = d_events d
     \<and> d_jobs d' = d_jobs d \<and> d_send_log d' = d_send_log d"
  by (auto simp: insert_deleted_def split: if_splits)

lemma cancel_frame [simp, frame_simps]:
  "d_rules (fst (cancel_jobs_for_comment c now d)) = d_rules d"
  "d_events (fst (cancel_jobs_for_comment c now d)) = d_events d"
  "d_deleted (fst (cancel_jobs_for_comment c now d)) = d_deleted d"
  "d_send_log (fst (cancel_jobs_for_comment c now d)) = d_send_log d"
  by (simp_all add: cancel_jobs_for_comment_def)

lemma process_comment_created_frame:
  "d_rules (fst (process_comment_created e now d)) = d_rules d"
  "d_events (fst (process_comment_created e now d)) = d_events d"
  "d_deleted (fst (process_comment_created e now d)) = d_deleted d"
  "d_send_log (fst (process_comment_created e now d)) = d_send_log d"
  "snd (process_comment_created e now d) \<in> {PROCESSED, IGNORED}"
  by (simp_all add: process_comment_created_def)

lemma process_comment_deleted_frame:
  "d_rules (fst (process_comment_deleted e now d)) = d_rules d"
  "d_events (fst (process_comment_deleted e now d)) = d_events d"
  "d_send_log (fst (process_comment_deleted e now d)) = d_send_log d"
  "snd (process_comment_deleted e now d) \<in> {PROCESSED, IGNORED}"
  by (auto simp: process_comment_deleted_def Let_def dest: insert_deleted_frame split: sum.splits)

lemma process_event_frame [frame_simps]:
  "d_rules (process_event e now d) = d_rules d"
  "d_send_log (process_event e now d) = d_send_log d"
  "\<exists>st. d_events (process_event e now d) = update_where (\<lambda>x. e_id x = e_id e)
     (\<lambda>x. x\<lparr>e_status := st, e_processed_at := Some now\<rparr>) (d_events d) \<and> st \<in> {PROCESSED, IGNORED}"
  using process_comment_created_frame[of e now d] process_comment_deleted_frame[of e now d]
  by (auto simp: process_event_def finish_event_def split: prod.splits)

lemma finish_event_db_ok [inv_intros]: "db_ok d \<Longrightarrow> db_ok (finish_event e st now d)"
  unfolding finish_event_def by (rule update_events_db_ok) simp_all

lemma process_event_db_ok [inv_intros]: "db_ok d \<Longrightarrow> db_ok (process_event e now d)"
  by (auto simp: process_event_def process_comment_created_def process_comment_deleted_def Let_def
      insert_deleted_db_ok cancel_db_ok create_jobs_db_ok finish_event_db_ok split: sum.splits)

lemma process_event_created:
  assumes "e_event_type e = event_comment_created" "e_user_id e = Some u" "u \<noteq> []"
    and "\<not> (given (e_comment_id e) \<and> comment_is_deleted (the (e_comment_id e)) d)"
  shows "process_event e now d = finish_event e PROCESSED now
    (create_jobs (find_matching_rules d (e_text e)) u (e_comment_id e) now d)"
proof -
  have "given (e_user_id e)" using assms(2,3) by (simp add: given_def)
  with assms show ?thesis by (auto simp: process_event_def process_comment_created_def)
qed

text \<open>
  A created comment is accounted for completely: afterwards every matching rule has its
  live job for the user; each match either created one new queued job, for this user and
  comment with the rule's message, or counted one blocked duplicate; jobs that were there
  are untouched.
\<close>

theorem comment_created_accounted:
  assumes "e_event_type e = event_comment_created" and "e_user_id e = Some u" "u \<noteq> []"
    and "\<not> (given (e_comment_id e) \<and> comment_is_deleted (the (e_comment_id e)) d)"
  shows "(\<forall>r \<in> set (find_matching_rules d (e_text e)).
            slot_taken (r_id r) u (process_event e now d))
     \<and> prefix (d_jobs d) (d_jobs (process_event e now d))
     \<and> (\<forall>j \<in> set (d_jobs (process_event e now d)). j \<in> set (d_jobs d) \<or>
          (j_status j = QUEUED \<and> j_user_id j = u \<and> j_comment_id j = e_comment_id e
            \<and> (\<exists>r \<in> set (find_matching_rules d (e_text e)).
                  j_rule_id j = r_id r \<and> j_message j = r_dm_message r)))
     \<and> int (length (d_jobs (process_event e now d))) - int (length (d_jobs d))
         + (get_counter DUPLICATES_BLOCKED (process_event e now d)
            - get_counter DUPLICATES_BLOCKED d)
       = int (length (find_matching_rules d (e_text e)))"
proof -
  let ?rs = "find_matching_rules d (e_text e)"
  let ?d = "create_jobs ?rs u (e_comment_id e) now d"
  have eq: "process_event e now d = finish_event e PROCESSED now ?d"
    by (rule process_event_created[OF assms])
  have "slot_taken rid u (finish_event e PROCESSED now ?d) = slot_taken rid u ?d" for rid
    by (simp add: slot_taken_def)
  moreover have sub: "set ?rs \<subseteq> set (d_rules d)" by (rule find_matching_rules_subset)
  note acc = create_jobs_accounting[OF sub, where u = u and c = "e_comment_id e" and now = now]
  have "int (length (d_jobs ?d)) - int (length (d_jobs d))
      + (get_counter DUPLICATES_BLOCKED ?d - get_counter DUPLICATES_BLOCKED d) = int (length ?rs)"
    using acc(1) by linarith
  ultimately show ?thesis
    unfolding eq finish_event_frame using acc(2,3) create_jobs_prefix by auto
qed

definition event1 :: event where
  "event1 = (new_event delivery_example None 5)\<lparr>e_id := 1, e_status := PROCESSING\<rparr>"

definition event2 :: event where
  "event2 = event1\<lparr>e_id := 2, e_event_id := ''evt_2'', e_event_type := ''comment.deleted''\<rparr>"

lemmas event_example_defs = event1_def event2_def new_event_def delivery_example_def
  default_data_def event_comment_created_def event_comment_deleted_def

theorem comment_created_accounted_witness:
  "slot_taken ''r1'' ''u1'' (process_event event1 6 (db1\<lparr>d_events := [event1]\<rparr>))"
proof -
  have h: "e_event_type event1 = event_comment_created" "e_user_id event1 = Some ''u1''"
    "(''u1'' :: string) \<noteq> []"
    "\<not> (given (e_comment_id event1)
        \<and> comment_is_deleted (the (e_comment_id event1)) (db1\<lparr>d_events := [event1]\<rparr>))"
    by (simp_all add: event_example_defs comment_is_deleted_def db1_def empty_db_def)
  have "rule1 \<in> set (find_matching_rules (db1\<lparr>d_events := [event1]\<rparr>) (e_text event1))"
    by code_simp
  from comment_created_accounted[OF h, of 6, THEN conjunct1, rule_format, OF this]
  show ?thesis by (simp only: rule1_def rule.select_convs)
qed

lemma process_event_deleted:
  assumes "e_event_type e = event_comment_deleted" "e_comment_id e = Some c" "c \<noteq> []"
  shows "process_event e now d = finish_event e PROCESSED now (fst (cancel_jobs_for_comment c now
    (if comment_is_deleted c d then d else d\<lparr>d_deleted := d_deleted d @ [(c, now)]\<rparr>)))"
proof -
  have "given (e_comment_id e)" using assms(2,3) by (simp add: given_def)
  moreover have "event_comment_deleted \<noteq> event_comment_created"
    by (simp add: event_comment_deleted_def event_comment_created_def)
  ultimately show ?thesis
    using assms by (simp add: process_event_def process_comment_deleted_def insert_deleted_def
        comment_is_deleted_def)
qed

lemma process_event_deleted_facts:
  assumes "e_event_type e = event_comment_deleted" "e_comment_id e = Some c" "c \<noteq> []"
  shows "comment_is_deleted c (process_event e now d)"
    and "\<forall>j \<in> set (d_jobs (process_event e now d)). \<not> cancellable c j"
    and "d_jobs (process_event e now d) = update_where (cancellable c)
           (\<lambda>j. j\<lparr>j_status := CANCELLED, j_updated_at := now\<rparr>) (d_jobs d)"
  unfolding process_event_deleted[OF assms]
  using assms(3) by (auto simp: comment_is_deleted_def cancel_jobs_for_comment_def set_update_where
      cancellable_def cancellable_job_statuses_def)

lemma process_event_skips_deleted:
  assumes "e_event_type e = event_comment_created" "e_comment_id e = Some c" "c \<noteq> []"
    and "comment_is_deleted c d"
  shows "process_event e now d = finish_event e IGNORED now d"
  using assms by (simp add: process_event_def process_comment_created_def given_def)



section \<open>Batches\<close>

lemma get_event_update_where:
  "(\<And>x. e_id (f x) = e_id x) \<Longrightarrow> d_events d' = update_where P f (d_events d) \<Longrightarrow>
   get_event i d' = map_option (\<lambda>x. if P x then f x else x) (get_event i d)"
  by (simp add: get_event_def find_by_update_where)

lemma get_event_SomeD: "get_event i d = Some e \<Longrightarrow> e \<in> set (d_events d) \<and> e_id e = i"
  unfolding get_event_def by (rule find_by_SomeD)

lemma get_event_iff:
  "db_ok d \<Longrightarrow> get_event i d = Some e \<longleftrightarrow> e \<in> set (d_events d) \<and> e_id e = i"
  by (simp add: get_event_def db_ok_def find_by_iff)

lemma get_event_process:
  "\<exists>st. st \<in> {PROCESSED, IGNORED} \<and>
    (\<forall>i. get_event i (process_event e now d) = map_option (\<lambda>x. if e_id x = e_id e
       then x\<lparr>e_status := st, e_processed_at := Some now\<rparr> else x) (get_event i d))"
proof -
  obtain st where st: "d_events (process_event e now d) = update_where (\<lambda>x. e_id x = e_id e)
     (\<lambda>x. x\<lparr>e_status := st, e_processed_at := Some now\<rparr>) (d_events d)" "st \<in> {PROCESSED, IGNORED}"
    using process_event_frame(3) by blast
  show ?thesis
    by (intro exI[of _ st] conjI st(2) allI get_event_update_where[OF _ st(1)]) simp
qed

lemma get_event_release:
  "get_event i (release_event k d) =
     map_option (\<lambda>x. if e_id x = k then x\<lparr>e_status := RECEIVED\<rparr> else x) (get_event i d)"
  by (rule get_event_update_where) (simp_all add: release_event_def)

lemma release_event_db_ok [inv_intros]: "db_ok d \<Longrightarrow> db_ok (release_event k d)"
  unfolding release_event_def by (rule update_events_db_ok) simp_all

lemma process_loop_db_ok [inv_intros]:
  "db_ok d \<Longrightarrow> db_ok (fst (process_loop faults es now h d))"
  by (induction es arbitrary: d h)
    (auto simp: process_event_db_ok release_event_db_ok split: event_fault.splits)

text \<open>The row of one event when the loop is over.\<close>

definition settled :: "event_fault \<Rightarrow> event \<Rightarrow> event \<Rightarrow> bool" where
  "settled f x x' \<longleftrightarrow> e_id x' = e_id x \<and> e_event_id x' = e_event_id x
     \<and> (f = NO_FAULT \<longrightarrow> e_status x' \<in> {PROCESSED, IGNORED})
     \<and> (f = PROCESS_FAULT \<longrightarrow> e_status x' = RECEIVED)
     \<and> (f = RECOVERY_FAULT \<longrightarrow> e_status x' = e_status x)"

lemma process_loop_other:
  "i \<notin> e_id ` set es \<Longrightarrow> get_event i (fst (process_loop faults es now h d)) = get_event i d"
proof (induction es arbitrary: d h)
  case (Cons e es)
  obtain st where "\<forall>i. get_event i (process_event e now d) = map_option (\<lambda>x. if e_id x = e_id e
       then x\<lparr>e_status := st, e_processed_at := Some now\<rparr> else x) (get_event i d)"
    using get_event_process[of e now d] by blast
  moreover have "map_option (\<lambda>x. if e_id x = e_id e then g x else x) (get_event i d) = get_event i d" for g
    using Cons.prems by (cases "get_event i d") (auto dest: get_event_SomeD)
  ultimately show ?case
    using Cons by (auto simp: get_event_release split: event_fault.splits)
qed simp

lemma process_loop_event:
  assumes "distinct (map e_id es)" "i \<in> e_id ` set es" "get_event i d = Some x"
    and "\<forall>e \<in> set es. faults (e_id e) \<noteq> RECOVERY_FAULT"
  shows "\<exists>x'. get_event i (fst (process_loop faults es now h d)) = Some x' \<and> settled (faults i) x x'"
  using assms
proof (induction es arbitrary: d h x)
  case (Cons e es)
  obtain st where st: "st \<in> {PROCESSED, IGNORED}"
    "\<forall>i. get_event i (process_event e now d) = map_option (\<lambda>x. if e_id x = e_id e
       then x\<lparr>e_status := st, e_processed_at := Some now\<rparr> else x) (get_event i d)"
    using get_event_process[of e now d] by blast
  show ?case
  proof (cases "i = e_id e")
    case True
    then have "i \<notin> e_id ` set es" using Cons.prems(1) by auto
    then show ?thesis
      using True Cons.prems(3,4) st(1) get_event_SomeD[OF Cons.prems(3)]
      by (auto simp: process_loop_other get_event_release st(2) settled_def split: event_fault.splits)
  next
    case False
    then have "i \<in> e_id ` set es" "e_id x \<noteq> e_id e"
      using Cons.prems(2) get_event_SomeD[OF Cons.prems(3)] by auto
    then show ?thesis
      using Cons.IH[of "process_event e now d" x "h + 1"] Cons.IH[of "release_event (e_id e) d" x h]
        Cons.prems
      by (auto simp: get_event_release st(2) split: event_fault.splits)
  qed
qed simp

lemma process_loop_count:
  "\<forall>e \<in> set es. faults (e_id e) \<noteq> RECOVERY_FAULT \<Longrightarrow>
   snd (process_loop faults es now h d) = Inr (h + count_where (\<lambda>e. faults (e_id e) = NO_FAULT) es)"
  by (induction es arbitrary: d h) (auto simp: count_where_Cons split: event_fault.splits)

lemma claim_event_db_ok [inv_intros]: "db_ok d \<Longrightarrow> db_ok (claim_event i d)"
  unfolding claim_event_def by (rule update_events_db_ok) simp_all

lemma claim_event_frame [simp, frame_simps]:
  "d_rules (claim_event i d) = d_rules d" "d_jobs (claim_event i d) = d_jobs d"
  "d_deleted (claim_event i d) = d_deleted d" "d_send_log (claim_event i d) = d_send_log d"
  "d_counters (claim_event i d) = d_counters d"
  by (simp_all add: claim_event_def)

lemma get_event_claim:
  "get_event k (claim_event i d) = map_option (\<lambda>e. if e_id e = i \<and> pending_event e
     then e\<lparr>e_status := PROCESSING\<rparr> else e) (get_event k d)"
  by (rule get_event_update_where) (simp_all add: claim_event_def)

lemma claim_events_db_ok [inv_intros]: "db_ok d \<Longrightarrow> db_ok (fst (claim_events ids d))"
  by (induction ids arbitrary: d) (simp_all add: Let_def split_beta claim_event_db_ok)

lemma claim_events_frame [simp, frame_simps]:
  "d_rules (fst (claim_events ids d)) = d_rules d" "d_jobs (fst (claim_events ids d)) = d_jobs d"
  "d_deleted (fst (claim_events ids d)) = d_deleted d"
  "d_send_log (fst (claim_events ids d)) = d_send_log d"
  "d_counters (fst (claim_events ids d)) = d_counters d"
  by (induction ids arbitrary: d) (simp_all add: Let_def split_beta)

lemma claim_events_hit:
  assumes "db_ok d" "distinct ids" "\<forall>i \<in> set ids. \<exists>e. get_event i d = Some e \<and> pending_event e"
  shows "map e_id (snd (claim_events ids d)) = ids
    \<and> (\<forall>k. get_event k (fst (claim_events ids d)) = map_option (\<lambda>e. if e_id e \<in> set ids
           then e\<lparr>e_status := PROCESSING\<rparr> else e) (get_event k d))"
  using assms
proof (induction ids arbitrary: d)
  case (Cons i ids)
  have ok: "db_ok (claim_event i d)" using Cons.prems(1) by (rule claim_event_db_ok)
  obtain e where e: "get_event i d = Some e" "pending_event e"
    using Cons.prems(3) by auto
  have ei: "e \<in> set (d_events d)" "e_id e = i" using get_event_SomeD[OF e(1)] by auto
  have hit: "count_where (\<lambda>e. e_id e = i \<and> pending_event e) (d_events d) \<noteq> 0"
    using ei e(2) by (auto simp: count_where_zero)
  have got: "get_event i (claim_event i d) = Some (e\<lparr>e_status := PROCESSING\<rparr>)"
    using e ei by (simp add: get_event_claim)
  have rest: "\<forall>k \<in> set ids. \<exists>e. get_event k (claim_event i d) = Some e \<and> pending_event e"
  proof
    fix k assume k: "k \<in> set ids"
    with Cons.prems(3) obtain x where x: "get_event k d = Some x" "pending_event x" by auto
    have "e_id x \<noteq> i" using get_event_SomeD[OF x(1)] k Cons.prems(2) by auto
    with x show "\<exists>e. get_event k (claim_event i d) = Some e \<and> pending_event e"
      by (simp add: get_event_claim)
  qed
  have d: "distinct ids" "i \<notin> set ids" using Cons.prems(2) by auto
  have pend: "pending_event x" if "get_event k d = Some x" "e_id x = i" for x k
    using that get_event_SomeD[OF that(1)] e by simp
  have each: "get_event k (fst (claim_events (i # ids) d)) = map_option (\<lambda>e. if e_id e \<in> set (i # ids)
      then e\<lparr>e_status := PROCESSING\<rparr> else e) (get_event k d)" for k
    using Cons.IH[OF ok d(1) rest] hit got pend
    by (cases "get_event k d") (auto simp: Let_def split_beta get_event_claim)
  from Cons.IH[OF ok d(1) rest] hit got ei(2)
  have "map e_id (snd (claim_events (i # ids) d)) = i # ids" by (simp add: Let_def split_beta)
  with each show ?case by blast
qed (simp add: option.map_ident)

lemma pending_ids_facts:
  assumes "db_ok d"
  shows "distinct (pending_ids limit d)"
    and "\<forall>i \<in> set (pending_ids limit d). \<exists>e. get_event i d = Some e \<and> pending_event e"
    and "length (pending_ids limit d) = min limit (count_where pending_event (d_events d))"
proof -
  have "distinct (map e_id (filter pending_event (d_events d)))"
    using assms by (simp add: db_ok_def distinct_map_filter)
  then show "distinct (pending_ids limit d)" by (simp add: pending_ids_def distinct_take)
  show "length (pending_ids limit d) = min limit (count_where pending_event (d_events d))"
    by (simp add: pending_ids_def count_where_def)
  show "\<forall>i \<in> set (pending_ids limit d). \<exists>e. get_event i d = Some e \<and> pending_event e"
  proof
    fix i assume "i \<in> set (pending_ids limit d)"
    then have "i \<in> set (sort (map e_id (filter pending_event (d_events d))))"
      unfolding pending_ids_def by (rule in_set_takeD)
    then obtain e where "e \<in> set (d_events d)" "e_id e = i" "pending_event e" by auto
    with assms show "\<exists>e. get_event i d = Some e \<and> pending_event e"
      by (auto simp: get_event_iff)
  qed
qed

lemma process_pending_events_db_ok [inv_intros]:
  "db_ok d \<Longrightarrow> db_ok (fst (process_pending_events faults limit now d))"
  by (simp add: process_pending_events_def claim_pending_events_def split_beta
      process_loop_db_ok claim_events_db_ok)

lemma requeue_stuck_events_db_ok [inv_intros]:
  "db_ok d \<Longrightarrow> db_ok (fst (requeue_stuck_events d))"
  unfolding requeue_stuck_events_def fst_conv by (rule update_events_db_ok) simp_all

lemma event_batch_step:
  assumes "db_ok d" and "\<forall>i \<in> set (pending_ids limit d). faults i \<noteq> RECOVERY_FAULT"
  shows "snd (process_pending_events faults limit now d)
           = Inr (length (filter (\<lambda>i. faults i = NO_FAULT) (pending_ids limit d)))
     \<and> (\<forall>i \<in> set (pending_ids limit d). \<exists>x x'. get_event i d = Some x
          \<and> get_event i (fst (process_pending_events faults limit now d)) = Some x'
          \<and> e_event_id x' = e_event_id x
          \<and> (faults i = NO_FAULT \<longrightarrow> e_status x' \<in> {PROCESSED, IGNORED})
          \<and> (faults i = PROCESS_FAULT \<longrightarrow> e_status x' = RECEIVED))
     \<and> (\<forall>i. i \<notin> set (pending_ids limit d) \<longrightarrow>
          get_event i (fst (process_pending_events faults limit now d)) = get_event i d)"
proof -
  let ?ids = "pending_ids limit d"
  obtain d1 es where c: "claim_events ?ids d = (d1, es)" by (cases "claim_events ?ids d")
  note ids = pending_ids_facts[OF assms(1), of limit]
  note hit = claim_events_hit[OF assms(1) ids(1,2), THEN conjunct1]
    claim_events_hit[OF assms(1) ids(1,2), THEN conjunct2, rule_format]
  have es: "map e_id es = ?ids" using hit(1) c by simp
  then have es': "e_id ` set es = set ?ids" by (metis list.set_map)
  have nf: "\<forall>e \<in> set es. faults (e_id e) \<noteq> RECOVERY_FAULT" using assms(2) es' by auto
  have eq: "process_pending_events faults limit now d = process_loop faults es now 0 d1"
    by (simp add: process_pending_events_def claim_pending_events_def c)
  have "count_where (\<lambda>e. faults (e_id e) = NO_FAULT) es
      = length (filter (\<lambda>i. faults i = NO_FAULT) (map e_id es))"
    by (simp add: count_where_def filter_map comp_def)
  then have n: "snd (process_loop faults es now 0 d1)
      = Inr (length (filter (\<lambda>i. faults i = NO_FAULT) ?ids))"
    using process_loop_count[OF nf] es by simp
  have inside: "\<exists>x x'. get_event i d = Some x
      \<and> get_event i (fst (process_loop faults es now 0 d1)) = Some x' \<and> settled (faults i) x x'"
    if i: "i \<in> set ?ids" for i
  proof -
    obtain x where x: "get_event i d = Some x" using ids(2) i by blast
    then have x1: "get_event i d1 = Some (x\<lparr>e_status := PROCESSING\<rparr>)"
      using hit(2)[of i] c i get_event_SomeD[OF x] by simp
    have "distinct (map e_id es)" "i \<in> e_id ` set es" using es ids(1) es' i by auto
    from process_loop_event[OF this x1 nf, of now 0] assms(2) i x show ?thesis
      by (auto simp: settled_def)
  qed
  have outside: "get_event i (fst (process_loop faults es now 0 d1)) = get_event i d"
    if "i \<notin> set ?ids" for i
    using process_loop_other[of i es] es' that hit(2)[of i] c
    by (cases "get_event i d") (auto dest: get_event_SomeD)
  show ?thesis unfolding eq using n inside outside by (fastforce simp: settled_def)
qed

text \<open>
  A batch settles exactly the events it takes, which are the oldest \<open>limit\<close> of those
  \<open>received\<close>: each one processed without an error ends \<open>processed\<close> or \<open>ignored\<close>, each
  one that failed is \<open>received\<close> again and so will be retried; one failing event does not
  keep the others from being handled; no other event changes; the number reported is the
  number of events handled.
\<close>

theorem event_batch_settles:
  assumes "db_ok d" and "\<forall>i \<in> set (pending_ids limit d). faults i \<noteq> RECOVERY_FAULT"
  shows "snd (process_pending_events faults limit now d)
           = Inr (length (filter (\<lambda>i. faults i = NO_FAULT) (pending_ids limit d)))
     \<and> (\<forall>i \<in> set (pending_ids limit d). \<exists>x x'. get_event i d = Some x
          \<and> get_event i (fst (process_pending_events faults limit now d)) = Some x'
          \<and> e_event_id x' = e_event_id x
          \<and> (faults i = NO_FAULT \<longrightarrow> e_status x' \<in> {PROCESSED, IGNORED})
          \<and> (faults i = PROCESS_FAULT \<longrightarrow> e_status x' = RECEIVED))
     \<and> (\<forall>i. i \<notin> set (pending_ids limit d) \<longrightarrow>
          get_event i (fst (process_pending_events faults limit now d)) = get_event i d)"
  using event_batch_step[OF assms] .

definition batch_db :: db where
  "batch_db = db1\<lparr>d_events := [event1\<lparr>e_status := RECEIVED\<rparr>, event2\<lparr>e_status := RECEIVED\<rparr>]\<rparr>"

definition batch_faults :: "nat \<Rightarrow> event_fault" where
  "batch_faults i = (if i < 2 then PROCESS_FAULT else NO_FAULT)"

lemma batch_db_ok: "db_ok batch_db"
  by (simp add: batch_db_def db1_def db_ok_def empty_db_def uq_dm_jobs_rule_user_def
      uq_events_event_id_def unique_index_def event_example_defs)

theorem event_batch_settles_witness:
  "snd (process_pending_events batch_faults 50 6 batch_db) = Inr 1
   \<and> (\<exists>x'. get_event 1 (fst (process_pending_events batch_faults 50 6 batch_db)) = Some x'
        \<and> e_status x' = RECEIVED)"
proof -
  have ids: "pending_ids 50 batch_db = [1, 2]" by code_simp
  have nf: "\<forall>i \<in> set (pending_ids 50 batch_db). batch_faults i \<noteq> RECOVERY_FAULT"
    by (simp add: batch_faults_def)
  have f: "batch_faults 1 = PROCESS_FAULT" "batch_faults 2 = NO_FAULT" by (simp_all add: batch_faults_def)
  have one: "1 \<in> set (pending_ids 50 batch_db)" by (simp add: ids)
  note b = event_batch_settles[OF batch_db_ok nf, of 6]
  have "snd (process_pending_events batch_faults 50 6 batch_db) = Inr 1"
    using b[THEN conjunct1] f by (simp add: ids)
  moreover have "\<exists>x'. get_event 1 (fst (process_pending_events batch_faults 50 6 batch_db)) = Some x'
      \<and> e_status x' = RECEIVED"
    using b[THEN conjunct2, THEN conjunct1] one f(1) by blast
  ultimately show ?thesis by blast
qed

section \<open>No event is lost\<close>

lemma get_event_requeue:
  "get_event i (fst (requeue_stuck_events d)) = map_option (\<lambda>e. if e_status e = PROCESSING
     then e\<lparr>e_status := RECEIVED\<rparr> else e) (get_event i d)"
  by (rule get_event_update_where) (simp_all add: requeue_stuck_events_def)

lemma process_loop_status:
  assumes "get_event i d = Some x"
  shows "\<exists>x'. get_event i (fst (process_loop faults es now h d)) = Some x'
    \<and> (x' = x \<or> e_status x' \<in> {RECEIVED, PROCESSED, IGNORED} \<and> i \<in> e_id ` set es)"
  using assms
proof (induction es arbitrary: d h x)
  case (Cons e es)
  obtain st where st: "st \<in> {PROCESSED, IGNORED}"
    "\<forall>i. get_event i (process_event e now d) = map_option (\<lambda>x. if e_id x = e_id e
       then x\<lparr>e_status := st, e_processed_at := Some now\<rparr> else x) (get_event i d)"
    using get_event_process[of e now d] by blast
  have i: "e_id x = i" using get_event_SomeD[OF Cons.prems] by simp
  let ?x1 = "if i = e_id e then x\<lparr>e_status := st, e_processed_at := Some now\<rparr> else x"
  let ?x2 = "if i = e_id e then x\<lparr>e_status := RECEIVED\<rparr> else x"
  have "get_event i (process_event e now d) = Some ?x1"
    "get_event i (release_event (e_id e) d) = Some ?x2"
    using Cons.prems st(2) i by (auto simp: get_event_release)
  with Cons.IH[OF this(1), of "h + 1"] Cons.IH[OF this(2), of h] Cons.prems st(1)
  show ?case
    by (cases "faults (e_id e)"; cases "i = e_id e") auto
qed simp

text \<open>
  C23: No stored event is ever lost.  Whatever errors a batch meets, including a database
  that fails in the recovery step and aborts the batch, after the recovery at the next start
  every event is still there and either finished or \<open>received\<close> again, and an event that was
  finished before is exactly as it was.
\<close>

theorem no_event_is_lost:
  assumes "db_ok d" and "get_event i d = Some x"
  shows "\<exists>x'. get_event i (fst (requeue_stuck_events
            (fst (process_pending_events faults limit now d)))) = Some x'
     \<and> e_status x' \<in> {RECEIVED, PROCESSED, IGNORED}
     \<and> (e_status x \<in> {PROCESSED, IGNORED} \<longrightarrow> x' = x)"
proof -
  let ?ids = "pending_ids limit d"
  obtain d1 es where c: "claim_events ?ids d = (d1, es)" by (cases "claim_events ?ids d")
  note ids = pending_ids_facts[OF assms(1), of limit]
  note hit = claim_events_hit[OF assms(1) ids(1,2)]
  have "map e_id es = ?ids" using hit c by simp
  then have es: "e_id ` set es = set ?ids" by (metis list.set_map)
  have i: "e_id x = i" using get_event_SomeD[OF assms(2)] by simp
  let ?x1 = "if i \<in> set ?ids then x\<lparr>e_status := PROCESSING\<rparr> else x"
  have "get_event i d1 = Some ?x1" using hit[THEN conjunct2, rule_format, of i] c assms(2) i by simp
  from process_loop_status[OF this, of faults es now 0] obtain x2 where
    x2: "get_event i (fst (process_pending_events faults limit now d)) = Some x2"
      "x2 = ?x1 \<or> e_status x2 \<in> {RECEIVED, PROCESSED, IGNORED} \<and> i \<in> set ?ids"
    by (auto simp: process_pending_events_def claim_pending_events_def c es)
  have pend: "i \<in> set ?ids \<Longrightarrow> e_status x = RECEIVED"
    using ids(2) assms(2) by (fastforce simp: pending_event_def)
  let ?x3 = "if e_status x2 = PROCESSING then x2\<lparr>e_status := RECEIVED\<rparr> else x2"
  have "get_event i (fst (requeue_stuck_events
      (fst (process_pending_events faults limit now d)))) = Some ?x3"
    using x2(1) by (simp add: get_event_requeue)
  moreover have "e_status ?x3 \<in> {RECEIVED, PROCESSED, IGNORED}"
    by (cases "e_status x2") simp_all
  moreover have "e_status x \<in> {PROCESSED, IGNORED} \<longrightarrow> ?x3 = x"
  proof
    assume fin: "e_status x \<in> {PROCESSED, IGNORED}"
    then have "i \<notin> set ?ids" using pend by auto
    then have "x2 = x" using x2(2) by simp
    then show "?x3 = x" using fin by auto
  qed
  ultimately show ?thesis by blast
qed

theorem no_event_is_lost_witness:
  "\<exists>x'. get_event 1 (fst (requeue_stuck_events
       (fst (process_pending_events (\<lambda>_. RECOVERY_FAULT) 50 6 batch_db)))) = Some x'
     \<and> e_status x' \<in> {RECEIVED, PROCESSED, IGNORED}"
proof -
  have "get_event 1 batch_db \<noteq> None" by code_simp
  then obtain x where "get_event 1 batch_db = Some x" by blast
  from no_event_is_lost[OF batch_db_ok this, of "\<lambda>_. RECOVERY_FAULT" 50 6] show ?thesis by blast
qed

section \<open>The queue of events drains\<close>

definition pending_set :: "db \<Rightarrow> nat set" where
  "pending_set d = {i. \<exists>e. get_event i d = Some e \<and> pending_event e}"

lemma pending_set_eq: "db_ok d \<Longrightarrow> pending_set d = set (map e_id (filter pending_event (d_events d)))"
  by (auto simp: pending_set_def get_event_iff)

lemma card_pending_set:
  assumes "db_ok d" shows "card (pending_set d) = count_where pending_event (d_events d)"
    and "finite (pending_set d)"
proof -
  have "distinct (map e_id (filter pending_event (d_events d)))"
    using assms by (simp add: db_ok_def distinct_map_filter)
  from distinct_card[OF this] show "card (pending_set d) = count_where pending_event (d_events d)"
    by (simp add: pending_set_eq[OF assms] count_where_def)
qed (simp add: pending_set_eq[OF assms])

lemma batch_pending:
  assumes "db_ok d"
  shows "pending_set (fst (process_pending_events (\<lambda>_. NO_FAULT) limit now d))
    = pending_set d - set (pending_ids limit d)"
proof -
  note b = event_batch_step[OF assms, of limit "\<lambda>_. NO_FAULT" now]
  have "i \<in> pending_set (fst (process_pending_events (\<lambda>_. NO_FAULT) limit now d))
      \<longleftrightarrow> i \<in> pending_set d - set (pending_ids limit d)" for i
    using b by (cases "i \<in> set (pending_ids limit d)")
      (fastforce simp: pending_set_def pending_event_def)+
  then show ?thesis by blast
qed

lemma batch_pending_count:
  assumes "db_ok d"
  shows "count_where pending_event (d_events (fst (process_pending_events (\<lambda>_. NO_FAULT) limit now d)))
    = count_where pending_event (d_events d) - limit"
proof -
  note ids = pending_ids_facts[OF assms, of limit]
  have "set (pending_ids limit d) \<subseteq> pending_set d"
    using ids(2) by (auto simp: pending_set_def)
  then have "card (pending_set d - set (pending_ids limit d)) =
      card (pending_set d) - length (pending_ids limit d)"
    using ids(1) by (simp add: card_Diff_subset distinct_card)
  then show ?thesis
    using card_pending_set(1)[OF assms] ids(3)
      card_pending_set(1)[OF process_pending_events_db_ok[OF assms], of "\<lambda>_. NO_FAULT" limit now]
    by (simp add: batch_pending[OF assms])
qed



end
