(* ===== verification/Security.thy ===== *)
theory Security
  imports Config
begin

text \<open>
  \<^verbatim>\<open>app/security.py\<close>: the webhook signature.  The keyed hash (\<open>hmac\<close> with SHA-256, hex
  digest) is an argument \<open>hmac key body\<close>; what the code relies on is that the digest is 64
  lower-case hexadecimal digits (\<open>hex_digest\<close>).
\<close>

definition signature_prefix :: "string" where
  "signature_prefix = ''sha256=''"

definition compute_signature :: "(string \<Rightarrow> string \<Rightarrow> string) \<Rightarrow> string \<Rightarrow> string \<Rightarrow> string" where
  "compute_signature hmac secret raw_body = hmac (encode secret) raw_body"

definition signature_header_value ::
  "(string \<Rightarrow> string \<Rightarrow> string) \<Rightarrow> string \<Rightarrow> string \<Rightarrow> string" where
  "signature_header_value hmac secret raw_body =
     signature_prefix @ compute_signature hmac secret raw_body"

text \<open>\<open>hmac.compare_digest\<close> on two \<open>str\<close>: ASCII only, \<open>TypeError\<close> otherwise.\<close>

definition compare_digest :: "string \<Rightarrow> string \<Rightarrow> bool res" where
  "compare_digest a b =
     (if list_all is_ascii a \<and> list_all is_ascii b then Inr (a = b) else Inl TypeError)"

definition verify_signature ::
  "(string \<Rightarrow> string \<Rightarrow> string) \<Rightarrow> string \<Rightarrow> string \<Rightarrow> string option \<Rightarrow> bool res" where
  "verify_signature hmac secret raw_body header_value =
     (case header_value of
        None \<Rightarrow> Inr False
      | Some h \<Rightarrow>
          if secret = [] \<or> h = [] then Inr False
          else
            let provided = strip h;
                provided = (if startswith (lower provided) signature_prefix
                            then drop (length signature_prefix) provided else provided);
                expected = compute_signature hmac secret raw_body
            in compare_digest expected (lower provided))"

section \<open>Acceptance\<close>

definition is_hex :: "char \<Rightarrow> bool" where
  "is_hex c \<longleftrightarrow> is_digit c \<or> (97 \<le> code c \<and> code c \<le> 102)"

definition hex_digest :: "(string \<Rightarrow> string \<Rightarrow> string) \<Rightarrow> bool" where
  "hex_digest hmac \<longleftrightarrow> (\<forall>k b. length (hmac k b) = 64 \<and> list_all is_hex (hmac k b))"

lemma is_hex_char: "is_hex c \<Longrightarrow> is_ascii c \<and> lower_char c = c \<and> \<not> is_space c \<and> c \<noteq> CHR ''s''"
  by (auto simp: is_hex_def is_digit_def is_ascii_def lower_char_def is_upper_def is_space_def
      code_def)

lemma hex_facts:
  assumes "list_all is_hex s"
  shows "list_all is_ascii s" "lower s = s" "s = [] \<or> hd s \<noteq> CHR ''s''"
    and "s = [] \<or> \<not> is_space (hd s) \<and> \<not> is_space (last s)"
proof -
  have *: "is_ascii c" "lower_char c = c" "\<not> is_space c" "c \<noteq> CHR ''s''" if "c \<in> set s" for c
    using assms that is_hex_char by (auto simp: list_all_iff)
  show "list_all is_ascii s" using * by (simp add: list_all_iff)
  show "lower s = s" unfolding lower_def by (rule map_idI) (rule *)
  show "s = [] \<or> hd s \<noteq> CHR ''s''" "s = [] \<or> \<not> is_space (hd s) \<and> \<not> is_space (last s)"
    using *(3,4) hd_in_set last_in_set by blast+
qed

lemma lower_drop: "lower (drop n s) = drop n (lower s)"
  by (simp add: lower_def drop_map)

lemma ascii_lower: "list_all is_ascii (lower s) = list_all is_ascii s"
  by (simp add: lower_def list_all_iff)

lemma ascii_strip_prefix:
  assumes "startswith (lower s) signature_prefix"
  shows "list_all is_ascii (drop (length signature_prefix) s) = list_all is_ascii s"
proof -
  have "list_all is_ascii (take (length signature_prefix) (lower s))"
    using assms by (auto simp: startswith_iff signature_prefix_def is_ascii_def code_def)
  then have "list_all is_ascii (take (length signature_prefix) s)"
    by (metis ascii_lower lower_def take_map)
  then show ?thesis
    by (metis append_take_drop_id list_all_append)
qed

text \<open>The three outcomes of the check in one equation.\<close>

lemma verify_signature_eq:
  assumes "hex_digest hmac" "secret \<noteq> []" "h \<noteq> []"
    and digest: "digest = compute_signature hmac secret body"
  shows "verify_signature hmac secret body (Some h) =
    (if \<not> list_all is_ascii (strip h) then Inl TypeError
     else Inr (lower (strip h) = digest \<or> lower (strip h) = signature_prefix @ digest))"
proof -
  have hex: "list_all is_hex digest" and len: "length digest = 64"
    using assms(1) by (auto simp: digest compute_signature_def hex_digest_def)
  have nos: "lower (strip h) \<noteq> digest" if "startswith (lower (strip h)) signature_prefix"
    using that hex_facts(3)[OF hex] len
    by (auto simp: startswith_iff signature_prefix_def)
  show ?thesis
  proof (cases "startswith (lower (strip h)) signature_prefix")
    case True
    then obtain r where r: "lower (strip h) = signature_prefix @ r"
      by (auto simp: startswith_iff)
    define p where "p = drop (length signature_prefix) (strip h)"
    have p: "lower p = r" "list_all is_ascii p = list_all is_ascii (strip h)"
      using r ascii_strip_prefix[OF True] by (simp_all add: p_def lower_drop)
    have "verify_signature hmac secret body (Some h) = compare_digest digest (lower p)"
      using True assms(2,3) by (simp add: verify_signature_def Let_def digest p_def)
    moreover have "lower (strip h) = signature_prefix @ digest \<longleftrightarrow> lower p = digest"
      using r p(1) by simp
    ultimately show ?thesis
      using nos[OF True] hex_facts(1)[OF hex] p(2)
      by (auto simp: compare_digest_def ascii_lower)
  next
    case False
    then have "lower (strip h) \<noteq> signature_prefix @ digest"
      by (auto simp: startswith_iff)
    moreover have "verify_signature hmac secret body (Some h) = compare_digest digest (lower (strip h))"
      using False assms(2,3) by (simp add: verify_signature_def Let_def digest)
    ultimately show ?thesis
      using hex_facts(1)[OF hex] by (auto simp: compare_digest_def ascii_lower)
  qed
qed

definition hmac_example :: "string \<Rightarrow> string \<Rightarrow> string" where
  "hmac_example k b = replicate 64 (digit_char ((length k + length b) mod 10))"

lemma hex_digest_example: "hex_digest hmac_example"
proof -
  have "n mod 10 \<le> 9" for n :: nat by presburger
  then show ?thesis
    by (simp add: hex_digest_def hmac_example_def is_hex_def is_digit_def code_digit_char
        list_all_iff)
qed

text \<open>
  An ASCII header is accepted exactly when, after trimming white space and ignoring case,
  it is the HMAC digest of the raw body under the secret, with or without the
  \<open>sha256=\<close> prefix.  An empty secret or a missing header is never accepted.
\<close>

theorem verify_signature_accepts_iff:
  assumes "hex_digest hmac" and "list_all is_ascii (strip h)"
  shows "(verify_signature hmac secret body (Some h) = Inr True \<longleftrightarrow>
      secret \<noteq> [] \<and> h \<noteq> [] \<and>
      (lower (strip h) = compute_signature hmac secret body \<or>
       lower (strip h) = signature_header_value hmac secret body))
    \<and> verify_signature hmac secret body None = Inr False"
  using assms(2) verify_signature_eq[OF assms(1) _ _ refl, of secret h body]
  by (cases "secret = [] \<or> h = []")
    (auto simp: verify_signature_def signature_header_value_def)

theorem verify_signature_accepts_iff_witness:
  "verify_signature hmac_example ''key'' ''{}'' (Some ''SHA256=0'') \<noteq> Inr True"
proof -
  have ascii: "list_all is_ascii (strip ''SHA256=0'')"
    by (simp add: strip_def lstrip_def is_space_def is_ascii_def code_def)
  have "length (lower (strip ''SHA256=0'')) = 8"
    by (simp add: strip_def lstrip_def is_space_def code_def)
  moreover have "length (compute_signature hmac_example ''key'' ''{}'') = 64"
    by (simp add: compute_signature_def hmac_example_def)
  ultimately show ?thesis
    using verify_signature_accepts_iff[OF hex_digest_example ascii, of "''key''" "''{}''"]
    by (auto simp: signature_header_value_def signature_prefix_def dest!: arg_cong[where f = length])
qed

lemma header_accepted:
  assumes "hex_digest hmac" and "secret \<noteq> []"
  shows "verify_signature hmac secret body (Some (signature_header_value hmac secret body)) = Inr True"
proof -
  let ?d = "compute_signature hmac secret body"
  have hex: "list_all is_hex ?d" and len: "length ?d = 64"
    using assms(1) by (auto simp: compute_signature_def hex_digest_def)
  then have "?d \<noteq> []" by auto
  then have "strip (signature_prefix @ ?d) = signature_prefix @ ?d"
    using hex_facts(4)[OF hex] by (intro strip_id) (auto simp: signature_prefix_def is_space_def code_def)
  moreover have "list_all is_ascii (signature_prefix @ ?d)"
    using hex_facts(1)[OF hex] by (simp add: signature_prefix_def is_ascii_def code_def)
  moreover have "lower (signature_prefix @ ?d) = signature_prefix @ ?d"
    using hex_facts(2)[OF hex]
    by (simp add: signature_prefix_def lower_def lower_char_def is_upper_def code_def)
  ultimately show ?thesis
    using verify_signature_eq[OF assms _ refl, of "signature_prefix @ ?d" body]
    by (simp add: signature_header_value_def signature_prefix_def)
qed

text \<open>
  What the sender's helper \<open>signature_header_value\<close> produces for the exact bytes is
  accepted by \<open>verify_signature\<close> for those bytes and the same non-empty secret.
\<close>

theorem signature_roundtrip:
  assumes "hex_digest hmac" and "secret \<noteq> []"
  shows "verify_signature hmac secret body (Some (signature_header_value hmac secret body)) = Inr True"
  by (rule header_accepted[OF assms])

theorem signature_roundtrip_witness:
  "verify_signature hmac_example ''key'' ''{}''
     (Some (signature_header_value hmac_example ''key'' ''{}'')) = Inr True"
  using signature_roundtrip[OF hex_digest_example, of "''key''" "''{}''"] by simp

text \<open>
  A header that still holds a non-ASCII character after trimming makes the check raise
  \<open>TypeError\<close> (from \<open>compare_digest\<close>) instead of answering False.
\<close>

theorem verify_signature_nonascii_raises:
  assumes "hex_digest hmac" and "secret \<noteq> []" and "\<not> list_all is_ascii (strip h)"
  shows "verify_signature hmac secret body (Some h) = Inl TypeError"
proof -
  have "h \<noteq> []" using assms(3) by (auto simp: strip_def lstrip_def)
  then show ?thesis
    using verify_signature_eq[OF assms(1,2) _ refl, of h body] assms(3) by simp
qed

theorem verify_signature_nonascii_raises_witness:
  "verify_signature hmac_example ''key'' ''{}'' (Some (''sha256='' @ [char_of (233::nat)]))
     = Inl TypeError"
  by (rule verify_signature_nonascii_raises[OF hex_digest_example])
    (simp_all add: strip_def lstrip_def is_space_def is_ascii_def code_def)

end
