(* ===== verification/Api.thy ===== *)
theory Api
  imports Events Security
begin

text \<open>
  \<^verbatim>\<open>app/api/\<close>: the request handlers.  \<open>json.loads\<close>, \<open>datetime.fromisoformat\<close>, the keyed
  hash and the new rule's id are arguments; \<open>storage\<close> is an error the database raises in the
  transaction, if any.  A handler gives the committed database and the response;
  \<open>HTTP 500\<close> stands for an exception no handler catches.
\<close>

datatype 'a response = Http nat string | Ok nat 'a

fun status_code :: "'a response \<Rightarrow> nat" where
  "status_code (Http n _) = n"
| "status_code (Ok n _) = n"

section \<open>Rules\<close>

definition create_rule ::
  "string \<Rightarrow> time \<Rightarrow> json \<Rightarrow> db \<Rightarrow> db \<times> rule_out response" where
  "create_rule new_id now body d = (case validate_rule_create body of
       None \<Rightarrow> (d, Http 422 ''validation error'')
     | Some payload \<Rightarrow>
         let keyword = strip (rc_keyword payload); message = strip (rc_dm_message payload) in
         if keyword = [] then (d, Http 400 ''keyword must not be empty'')
         else if message = [] then (d, Http 400 ''dm_message must not be empty'')
         else if new_id \<in> r_id ` set (d_rules d) then (d, Http 500 ''integrity error'')
         else let r = \<lparr>r_id = new_id, r_keyword = keyword,
                       r_keyword_normalized = normalize_keyword keyword,
                       r_dm_message = message, r_is_active = 1, r_created_at = now\<rparr>
              in (d\<lparr>d_rules := d_rules d @ [r]\<rparr>,
                  Ok 201 \<lparr>ro_rule_id = r_id r, ro_keyword = r_keyword r,
                          ro_dm_message = r_dm_message r\<rparr>))"

definition list_rules :: "db \<Rightarrow> rule_out list" where
  "list_rules d = map (\<lambda>r. \<lparr>ro_rule_id = r_id r, ro_keyword = r_keyword r,
       ro_dm_message = r_dm_message r\<rparr>) (sort_key r_created_at (active_rules d))"

definition get_stats :: "db \<Rightarrow> stats_out" where
  "get_stats d = (let s = compute_stats d in
     \<lparr>so_sent = sent s, so_failed = failed s, so_queued = queued s,
      so_duplicates_blocked = duplicates_blocked s\<rparr>)"

definition health :: string where
  "health = ''ok''"

section \<open>The webhook\<close>

definition store_event ::
  "(string \<Rightarrow> datetime option) \<Rightarrow> settings \<Rightarrow> py_exc option \<Rightarrow> webhook_event \<Rightarrow> time \<Rightarrow> db
     \<Rightarrow> db \<times> bool res" where
  "store_event fromisoformat s storage payload now =
     session_scope (\<lambda>d. case storage of
         Some e \<Rightarrow> Inl e
       | None \<Rightarrow> (case ingest_event fromisoformat s payload now d of
             Inl e \<Rightarrow> Inl e | Inr (d', r) \<Rightarrow> Inr (d', ir_duplicate r)))"

definition receive_webhook ::
  "(string \<Rightarrow> string \<Rightarrow> string) \<Rightarrow> (string \<Rightarrow> json res) \<Rightarrow> (string \<Rightarrow> datetime option)
     \<Rightarrow> settings \<Rightarrow> py_exc option \<Rightarrow> time \<Rightarrow> string \<Rightarrow> string option \<Rightarrow> db
     \<Rightarrow> db \<times> webhook_ack response" where
  "receive_webhook hmac loads fromisoformat s storage now raw_body signature d =
     (if int (length raw_body) > max_webhook_body_bytes s then (d, Http 413 ''payload too large'')
      else
        let authentic = (if verify_webhook_signature s
                         then verify_signature hmac (signing_secret s) raw_body signature
                         else Inr True)
        in case authentic of
          Inl e \<Rightarrow> (d, Http 500 ''exception'')
        | Inr False \<Rightarrow> (d, Http 401 ''invalid signature'')
        | Inr True \<Rightarrow>
            (case loads raw_body of
               Inl e \<Rightarrow> if e = ValueError then (d, Http 400 ''body must be valid JSON'')
                        else (d, Http 500 ''exception'')
             | Inr (JObj o') \<Rightarrow>
                 (case validate_event (JObj o') of
                    None \<Rightarrow> (d, Http 400 ''invalid webhook payload'')
                  | Some payload \<Rightarrow>
                      (case store_event fromisoformat s storage payload now d of
                         (d', Inl e) \<Rightarrow> (d', Http 503 ''storage unavailable'')
                       | (d', Inr duplicate) \<Rightarrow>
                           (d', Ok 200 \<lparr>wa_status = (if duplicate then ''duplicate'' else ''accepted''),
                                        wa_event_id = we_event_id payload,
                                        wa_duplicate = duplicate\<rparr>)))
             | Inr _ \<Rightarrow> (d, Http 400 ''body must be a JSON object'')))"

section \<open>Properties\<close>

lemma create_rule_cases:
  obtains (refused) n m where "create_rule new_id now body d = (d, Http n m)" "n \<in> {400, 422, 500}"
    | (created) p r where "validate_rule_create body = Some p" "strip (rc_keyword p) \<noteq> []"
      "strip (rc_dm_message p) \<noteq> []" "new_id \<notin> r_id ` set (d_rules d)"
      "r = \<lparr>r_id = new_id, r_keyword = strip (rc_keyword p),
            r_keyword_normalized = normalize_keyword (strip (rc_keyword p)),
            r_dm_message = strip (rc_dm_message p), r_is_active = 1, r_created_at = now\<rparr>"
      "create_rule new_id now body d = (d\<lparr>d_rules := d_rules d @ [r]\<rparr>,
         Ok 201 \<lparr>ro_rule_id = new_id, ro_keyword = strip (rc_keyword p),
                 ro_dm_message = strip (rc_dm_message p)\<rparr>)"
proof (cases "validate_rule_create body")
  case None
  then show ?thesis by (intro refused[of 422 "''validation error''"]) (auto simp: create_rule_def)
next
  case (Some p)
  consider (k) "strip (rc_keyword p) = []" | (m) "strip (rc_keyword p) \<noteq> []" "strip (rc_dm_message p) = []"
    | (u) "strip (rc_keyword p) \<noteq> []" "strip (rc_dm_message p) \<noteq> []" "new_id \<in> r_id ` set (d_rules d)"
    | (ok) "strip (rc_keyword p) \<noteq> []" "strip (rc_dm_message p) \<noteq> []" "new_id \<notin> r_id ` set (d_rules d)"
    by blast
  then show ?thesis
  proof cases
    case k
    then show ?thesis
      by (intro refused[of 400 "''keyword must not be empty''"]) (simp_all add: create_rule_def Some Let_def)
  next
    case m
    then show ?thesis
      by (intro refused[of 400 "''dm_message must not be empty''"]) (simp_all add: create_rule_def Some Let_def)
  next
    case u
    then show ?thesis
      by (intro refused[of 500 "''integrity error''"]) (simp_all add: create_rule_def Some Let_def)
  next
    case ok
    then show ?thesis by (intro created[OF Some ok refl]) (simp add: create_rule_def Some Let_def)
  qed
qed

lemma create_rule_db_ok [inv_intros]:
  "db_ok d \<Longrightarrow> db_ok (fst (create_rule new_id now body d))"
  by (cases rule: create_rule_cases[of new_id now body d])
    (auto simp: db_ok_def uq_dm_jobs_rule_user_def uq_events_event_id_def)

lemma create_rule_rules_ok [inv_intros]:
  "rules_ok d \<Longrightarrow> rules_ok (fst (create_rule new_id now body d))"
  by (cases rule: create_rule_cases[of new_id now body d])
    (auto simp: rules_ok_def normalize_keyword_def)


definition rule_body :: json where
  "rule_body = JObj [(''keyword'', JStr '' PRICE ''), (''dm_message'', JStr ''list'')]"


lemma ingest_event_stores:
  assumes "ingest_event parse s p now d = Inr (d', r)"
  shows "we_event_id p \<in> e_event_id ` set (d_events d')
    \<and> (ir_duplicate r \<longleftrightarrow> we_event_id p \<in> e_event_id ` set (d_events d))
    \<and> (ir_duplicate r \<longrightarrow> d_events d' = d_events d)
    \<and> prefix (d_events d) (d_events d') \<and> d_jobs d' = d_jobs d"
proof -
  obtain ts where ts: "parse_iso8601 parse (we_sent_at p) = Inr ts"
    using assms by (auto simp: ingest_event_def split: sum.splits)
  show ?thesis
    by (cases rule: ingest_event_cases[OF ts, of d s now])
      (use assms in \<open>auto simp: new_event_def Let_def\<close>)
qed

lemma store_event_cases:
  obtains (failed) e where "store_event parse s storage p now d = (d, Inl e)"
    | (stored) d' r where "ingest_event parse s p now d = Inr (d', r)" "storage = None"
      "store_event parse s storage p now d = (d', Inr (ir_duplicate r))"
  by (cases storage; cases "ingest_event parse s p now d")
    (auto simp: store_event_def session_scope_def)

lemma receive_webhook_cases:
  obtains (refused) n m where "receive_webhook hmac loads parse s storage now body hdr d = (d, Http n m)"
      "n \<in> {400, 401, 413, 500, 503}"
    | (accepted) v p d' r where "int (length body) \<le> max_webhook_body_bytes s"
      "verify_webhook_signature s \<longrightarrow> verify_signature hmac (signing_secret s) body hdr = Inr True"
      "loads body = Inr v" "validate_event v = Some p" "storage = None"
      "ingest_event parse s p now d = Inr (d', r)"
      "receive_webhook hmac loads parse s storage now body hdr d =
         (d', Ok 200 \<lparr>wa_status = (if ir_duplicate r then ''duplicate'' else ''accepted''),
                     wa_event_id = we_event_id p, wa_duplicate = ir_duplicate r\<rparr>)"
proof -
  let ?auth = "if verify_webhook_signature s then verify_signature hmac (signing_secret s) body hdr
    else Inr True"
  have three: "(\<exists>e. ?auth = Inl e) \<or> ?auth = Inr False \<or> ?auth = Inr True"
  proof (cases ?auth)
    case (Inr b)
    then show ?thesis by (cases b) simp_all
  qed blast
  consider (big) "int (length body) > max_webhook_body_bytes s"
    | (raised) e where "int (length body) \<le> max_webhook_body_bytes s" "?auth = Inl e"
    | (forged) "int (length body) \<le> max_webhook_body_bytes s" "?auth = Inr False"
    | (auth) "int (length body) \<le> max_webhook_body_bytes s" "?auth = Inr True"
    using three linorder_not_le[of "int (length body)" "max_webhook_body_bytes s"] by blast
  then show ?thesis
  proof cases
    case auth
    show ?thesis
    proof (cases "\<exists>o' p. loads body = Inr (JObj o') \<and> validate_event (JObj o') = Some p")
      case False
      then have "\<exists>n m. receive_webhook hmac loads parse s storage now body hdr d = (d, Http n m)
          \<and> n \<in> {400, 401, 413, 500, 503}"
        using auth by (auto simp: receive_webhook_def Let_def split: sum.splits json.splits option.splits)
      then show ?thesis using refused by blast
    next
      case True
      then obtain o' p where p: "loads body = Inr (JObj o')" "validate_event (JObj o') = Some p" by blast
      show ?thesis
      proof (cases rule: store_event_cases[of parse s storage p now d])
        case (failed e)
        then show ?thesis
          using auth p by (intro refused[of 503 "''storage unavailable''"]) (auto simp: receive_webhook_def Let_def)
      next
        case (stored d' r)
        then show ?thesis
          using auth p by (intro accepted[of "JObj o'" p d' r])
            (auto simp: receive_webhook_def Let_def split: if_splits)
      qed
    qed
  next
    case big
    then show ?thesis by (intro refused[of 413 "''payload too large''"]) (auto simp: receive_webhook_def)
  next
    case (raised e)
    then show ?thesis
      by (intro refused[of 500 "''exception''"]) (auto simp: receive_webhook_def Let_def)
  next
    case forged
    then show ?thesis
      by (intro refused[of 401 "''invalid signature''"]) (auto simp: receive_webhook_def Let_def)
  qed
qed

lemma receive_webhook_db_ok [inv_intros]:
  "db_ok d \<Longrightarrow> db_ok (fst (receive_webhook hmac loads parse s storage now body hdr d))"
  by (cases rule: receive_webhook_cases[of hmac loads parse s storage now body hdr d])
    (auto intro: ingest_event_db_ok)

text \<open>
  C24: The webhook acknowledges only what it has stored.  A 200 means that the body was within
  the limit, that its signature verified (when verification is on), and that an event with the
  acknowledged id is in the database, \<open>duplicate\<close> telling whether it was there before;
  matching has not run, so no job has changed.  Every other answer, storage errors included,
  leaves the database exactly as it was, so the sender's retry starts afresh.
\<close>

theorem webhook_acknowledges_only_stored:
  "case receive_webhook hmac loads parse s storage now body hdr d of
     (d', Ok n ack) \<Rightarrow> n = 200 \<and> storage = None
        \<and> int (length body) \<le> max_webhook_body_bytes s
        \<and> (verify_webhook_signature s \<longrightarrow>
             verify_signature hmac (signing_secret s) body hdr = Inr True)
        \<and> wa_event_id ack \<in> e_event_id ` set (d_events d')
        \<and> (wa_duplicate ack \<longleftrightarrow> wa_event_id ack \<in> e_event_id ` set (d_events d))
        \<and> prefix (d_events d) (d_events d') \<and> d_jobs d' = d_jobs d
   | (d', Http n m) \<Rightarrow> d' = d \<and> n \<in> {400, 401, 413, 500, 503}"
proof (cases rule: receive_webhook_cases[of hmac loads parse s storage now body hdr d])
  case (accepted v p d' r)
  with ingest_event_stores[OF accepted(6)] show ?thesis by simp
qed simp

definition open_settings :: settings where
  "open_settings = default_settings\<lparr>verify_webhook_signature := False\<rparr>"

definition loads_example :: "string \<Rightarrow> json res" where
  "loads_example body = (if body = ''ok'' then Inr (JObj [(''event_id'', JStr ''evt_1''),
       (''event_type'', JStr ''comment.created'')])
     else if body = ''old'' then Inr (JObj [(''event_id'', JStr ''evt_1''),
       (''event_type'', JStr ''comment.created''), (''sent_at'', JStr ''0001-01-01T00:00:00+01:00'')])
     else Inl ValueError)"

lemma receive_ok_example:
  "\<exists>d' ack. receive_webhook hmac_example loads_example iso_plain open_settings None 5 ''ok'' None empty_db
     = (d', Ok 200 ack) \<and> wa_event_id ack = ''evt_1''"
proof -
  have "case receive_webhook hmac_example loads_example iso_plain open_settings None 5 ''ok'' None empty_db
      of (d', Ok n ack) \<Rightarrow> n = 200 \<and> wa_event_id ack = ''evt_1'' | (d', Http n m) \<Rightarrow> False"
    by code_simp
  then show ?thesis by (auto split: prod.splits response.splits)
qed

theorem webhook_acknowledges_only_stored_witness:
  "''evt_1'' \<in> e_event_id ` set (d_events (fst (receive_webhook hmac_example loads_example iso_plain
     open_settings None 5 ''ok'' None empty_db)))"
proof -
  obtain d' ack where r: "receive_webhook hmac_example loads_example iso_plain open_settings None 5
      ''ok'' None empty_db = (d', Ok 200 ack)" "wa_event_id ack = ''evt_1''"
    using receive_ok_example by blast
  from webhook_acknowledges_only_stored[where hmac = hmac_example and loads = loads_example
      and parse = iso_plain and s = open_settings and storage = None and now = 5
      and body = "''ok''" and hdr = None and d = empty_db] r show ?thesis by simp
qed

text \<open>
  Redelivery is harmless: once a delivery was answered 200, the same body and signature
  sent again at any later time, in any state that has kept the stored events, is answered 200
  as a duplicate and adds neither an event nor a job.
\<close>

theorem webhook_replay_idempotent:
  assumes "receive_webhook hmac loads parse s storage now body hdr d = (d1, Ok n ack)"
    and "prefix (d_events d1) (d_events d2)"
  shows "\<exists>d3. receive_webhook hmac loads parse s None later body hdr d2
       = (d3, Ok 200 \<lparr>wa_status = ''duplicate'', wa_event_id = wa_event_id ack, wa_duplicate = True\<rparr>)
     \<and> d_events d3 = d_events d2 \<and> d_jobs d3 = d_jobs d2"
proof (cases rule: receive_webhook_cases[of hmac loads parse s storage now body hdr d])
  case (refused k m)
  then show ?thesis using assms(1) by simp
next
  case (accepted v p d' r)
  then have "d' = d1" and ack: "wa_event_id ack = we_event_id p" using assms(1) by auto
  then have "we_event_id p \<in> e_event_id ` set (d_events d1)"
    using ingest_event_stores[OF accepted(6)] by simp
  then have old: "we_event_id p \<in> e_event_id ` set (d_events d2)"
    using assms(2) by (auto simp: prefix_def)
  obtain ts where ts: "parse_iso8601 parse (we_sent_at p) = Inr ts"
    using accepted(6) by (auto simp: ingest_event_def split: sum.splits)
  have ing: "ingest_event parse s p later d2 =
      Inr (handle_duplicate_event s p d2, \<lparr>ir_duplicate = True, ir_event_pk = None\<rparr>)"
    by (cases rule: ingest_event_cases[OF ts, of d2 s later]) (use old in auto)
  obtain o' where v: "v = JObj o'"
    using accepted(4) by (cases v) (auto simp: validate_event_def)
  have "receive_webhook hmac loads parse s None later body hdr d2 = (handle_duplicate_event s p d2,
      Ok 200 \<lparr>wa_status = ''duplicate'', wa_event_id = we_event_id p, wa_duplicate = True\<rparr>)"
    using accepted(1-4) ing v
    by (auto simp: receive_webhook_def store_event_def session_scope_def Let_def)
  then show ?thesis by (simp add: ack)
qed

theorem webhook_replay_idempotent_witness:
  "\<exists>d1 d3 ack. receive_webhook hmac_example loads_example iso_plain open_settings None 9 ''ok'' None d1
     = (d3, Ok 200 ack) \<and> wa_duplicate ack \<and> d_events d3 = d_events d1"
proof -
  obtain d' ack where "receive_webhook hmac_example loads_example iso_plain open_settings None 5
      ''ok'' None empty_db = (d', Ok 200 ack)"
    using receive_ok_example by blast
  from webhook_replay_idempotent[OF this prefix_order.order_refl, of 9] show ?thesis by force
qed

text \<open>
  C40: One timestamp blocks an event for good: a valid, authentic delivery whose \<open>sent_at\<close> is
  a timestamp that overflows when it is normalised is answered 503 in every state and at every
  time, and never stored, so the sender retries it for ever; the same event with unparsable
  text as \<open>sent_at\<close> is stored.
\<close>

theorem webhook_overflow_never_stored:
  assumes "int (length body) \<le> max_webhook_body_bytes s"
    and "verify_webhook_signature s \<longrightarrow> verify_signature hmac (signing_secret s) body hdr = Inr True"
    and "loads body = Inr v" and "validate_event v = Some p"
    and "parse_iso8601 parse (we_sent_at p) = Inl OverflowError"
  shows "\<forall>d now. receive_webhook hmac loads parse s None now body hdr d
           = (d, Http 503 ''storage unavailable'')"
proof -
  obtain o' where "v = JObj o'" using assms(4) by (cases v) (auto simp: validate_event_def)
  then show ?thesis
    using assms by (auto simp: receive_webhook_def store_event_def session_scope_def Let_def ingest_event_def)
qed

theorem webhook_overflow_never_stored_witness:
  "\<forall>d now. receive_webhook hmac_example loads_example iso_example open_settings None now ''old'' None d
     = (d, Http 503 ''storage unavailable'')"
proof -
  obtain v where v: "loads_example ''old'' = Inr v" by (simp add: loads_example_def)
  have "case validate_event v of Some p \<Rightarrow> we_sent_at p = Some ''0001-01-01T00:00:00+01:00'' | None \<Rightarrow> False"
    using v by (auto simp: loads_example_def validate_event_def str_field_def opt_str_field_def)
  then obtain p where p: "validate_event v = Some p" "we_sent_at p = Some ''0001-01-01T00:00:00+01:00''"
    by (auto split: option.splits)
  have "parse_iso8601 iso_example (Some ''0001-01-01T00:00:00+01:00'') = Inl OverflowError" by code_simp
  with p(2) have o: "parse_iso8601 iso_example (we_sent_at p) = Inl OverflowError" by simp
  have "int (length ''old'') \<le> max_webhook_body_bytes open_settings"
    "verify_webhook_signature open_settings \<longrightarrow>
       verify_signature hmac_example (signing_secret open_settings) ''old'' None = Inr True"
    by (simp_all add: open_settings_def default_settings_simps)
  from webhook_overflow_never_stored[of "''old''" open_settings hmac_example None loads_example v p
      iso_example, OF this v p(1) o] show ?thesis .
qed

end
