(* ===== verification/JobSpec.thy ===== *)
theory JobSpec
  imports Jobs
begin

text \<open>
  The state machine of a DM job as the README draws it, and the proof that the operations of
  \<^verbatim>\<open>jobs.py\<close> implement it.  The abstract state is (status, attempts, transient failures,
  send cycle); \<open>M\<close> and \<open>D\<close> are \<open>max_dm_attempts\<close> and \<open>max_delivery_attempts\<close>.
\<close>

type_synonym jstate = "job_status \<times> nat \<times> nat \<times> nat"

datatype jlabel = L_CLAIM | L_ACCEPT | L_THROTTLE | L_TRANSIENT | L_REJECT
  | L_DELIVER | L_UNDELIVERED | L_POLL | L_RELEASE | L_CANCEL

inductive job_step :: "int \<Rightarrow> int \<Rightarrow> jstate \<Rightarrow> jlabel \<Rightarrow> jstate \<Rightarrow> bool"
  for M :: int and D :: int where
  claim: "st \<in> {QUEUED, RETRY_WAIT} \<Longrightarrow> job_step M D (st, a, t, c) L_CLAIM (SENDING, a, t, c)"
| accept: "job_step M D (SENDING, a, t, c) L_ACCEPT (ACCEPTED, Suc a, 0, c)"
| throttle: "job_step M D (SENDING, a, t, c) L_THROTTLE (RETRY_WAIT, a, t, c)"
| transient: "\<not> M \<le> int (Suc t) \<Longrightarrow>
    job_step M D (SENDING, a, t, c) L_TRANSIENT (RETRY_WAIT, Suc a, Suc t, c)"
| exhausted: "M \<le> int (Suc t) \<Longrightarrow>
    job_step M D (SENDING, a, t, c) L_TRANSIENT (FAILED, Suc a, Suc t, c)"
| reject: "job_step M D (SENDING, a, t, c) L_REJECT (FAILED, Suc a, t, c)"
| deliver: "job_step M D (ACCEPTED, a, t, c) L_DELIVER (DELIVERED, a, t, c)"
| redo: "\<not> D \<le> int (Suc c) \<Longrightarrow>
    job_step M D (ACCEPTED, a, t, c) L_UNDELIVERED (RETRY_WAIT, Suc a, 0, Suc c)"
| undeliverable: "D \<le> int (Suc c) \<Longrightarrow>
    job_step M D (ACCEPTED, a, t, c) L_UNDELIVERED (FAILED, Suc a, t, Suc c)"
| poll: "job_step M D (ACCEPTED, a, t, c) L_POLL (ACCEPTED, a, t, c)"
| release: "job_step M D (SENDING, a, t, c) L_RELEASE (QUEUED, a, t, c)"
| cancel: "st \<in> {QUEUED, RETRY_WAIT} \<Longrightarrow> job_step M D (st, a, t, c) L_CANCEL (CANCELLED, a, t, c)"

inductive_cases terminal_stepE:
  "job_step M D (DELIVERED, a, t, c) l s" "job_step M D (FAILED, a, t, c) l s"
  "job_step M D (CANCELLED, a, t, c) l s"

definition job_start :: "jstate \<Rightarrow> bool" where
  "job_start s \<longleftrightarrow> s = (QUEUED, 0, 0, 0)"

definition terminal :: "job_status \<Rightarrow> bool" where
  "terminal st \<longleftrightarrow> st \<in> {DELIVERED, FAILED, CANCELLED}"

lemma terminal_no_step: "terminal st \<Longrightarrow> \<not> job_step M D (st, a, t, c) l s"
  by (auto simp: terminal_def elim: terminal_stepE)

section \<open>Budgets\<close>

text \<open>
  Between two acceptances at most \<open>M\<close> requests are charged to the job, and at most \<open>D\<close>
  accepted messages fail.
\<close>

fun job_budget :: "int \<Rightarrow> int \<Rightarrow> jstate \<Rightarrow> bool" where
  "job_budget M D (st, a, t, c) \<longleftrightarrow>
     (if st = FAILED then int c \<le> D \<and> int a \<le> int c + M * D
      else int c < D \<and>
        (if st = ACCEPTED \<or> st = DELIVERED then t = 0 \<and> int a \<le> int c * M + int c + M
         else int t < M \<and> int a \<le> int c * M + int c + int t))"

lemma budget_product: "int c < D \<Longrightarrow> 0 \<le> M \<Longrightarrow> int c * M + M \<le> M * D"
  using mult_right_mono[of "int c + 1" D M] by (simp add: algebra_simps)

lemma job_step_budget:
  assumes "job_step M D s l s'" "1 \<le> M" "job_budget M D s"
  shows "job_budget M D s'"
  using assms
proof (cases rule: job_step.cases)
  case (exhausted t a c)
  with assms budget_product[of c D M] show ?thesis by auto
next
  case (reject a t c)
  with assms budget_product[of c D M] show ?thesis by auto
next
  case (undeliverable c a t)
  with assms budget_product[of c D M] show ?thesis by auto
qed (auto simp: algebra_simps)

lemma budget_system:
  "1 \<le> M \<Longrightarrow> 1 \<le> D \<Longrightarrow> invariant_system job_start (job_step M D) (job_budget M D)"
  by unfold_locales (auto simp: job_start_def intro: job_step_budget)

interpretation default_budget: invariant_system job_start
    "job_step (max_dm_attempts default_settings) (max_delivery_attempts default_settings)"
    "job_budget (max_dm_attempts default_settings) (max_delivery_attempts default_settings)"
  by (rule budget_system) (simp_all add: default_settings_simps)

section \<open>Refinement\<close>

definition abs_job :: "job \<Rightarrow> jstate" where
  "abs_job j = (j_status j, j_attempts j, j_transient_failures j, j_send_cycle j)"

text \<open>The columns no operation after the creation changes.\<close>

definition same_identity :: "job \<Rightarrow> job \<Rightarrow> bool" where
  "same_identity j j' \<longleftrightarrow> j_id j' = j_id j \<and> j_rule_id j' = j_rule_id j
     \<and> j_user_id j' = j_user_id j \<and> j_comment_id j' = j_comment_id j \<and> j_message j' = j_message j"

abbreviation step_of :: "settings \<Rightarrow> jstate \<Rightarrow> jlabel \<Rightarrow> jstate \<Rightarrow> bool" where
  "step_of s \<equiv> job_step (max_dm_attempts s) (max_delivery_attempts s)"

lemma schedule_retryD:
  "schedule_retry delay err now j = Inr j' \<Longrightarrow>
   \<exists>t le. retry_time now delay = Inr t \<and> error_column err = Inr le
     \<and> j' = j\<lparr>j_status := RETRY_WAIT, j_next_retry_at := Some t, j_last_error := le, j_updated_at := now\<rparr>"
  by (auto simp: schedule_retry_def split: sum.splits)

lemma give_upD:
  "give_up err now j = Inr j' \<Longrightarrow> \<exists>le. error_column err = Inr le
     \<and> j' = j\<lparr>j_status := FAILED, j_next_retry_at := None, j_last_error := le, j_updated_at := now\<rparr>"
  by (auto simp: give_up_def split: sum.splits)

lemma handle_transient_failure_step:
  assumes "handle_transient_failure s u err now j = Inr j'" "j_status j = SENDING"
  shows "step_of s (abs_job j) L_TRANSIENT (abs_job j') \<and> same_identity j j'"
  using assms
  by (auto simp: handle_transient_failure_def Let_def abs_job_def same_identity_def
      simp del: of_nat_add of_nat_Suc
      dest!: schedule_retryD give_upD intro: job_step.intros split: if_splits sum.splits)

definition send_label :: "send_result \<Rightarrow> jlabel" where
  "send_label r = (case sr_outcome r of
       S_ACCEPTED \<Rightarrow> if truthy (sr_dm_id r) then L_ACCEPT else L_TRANSIENT
     | S_RATE_LIMITED \<Rightarrow> L_THROTTLE
     | S_AUTH_ERROR \<Rightarrow> L_THROTTLE
     | S_INVALID \<Rightarrow> L_REJECT
     | _ \<Rightarrow> L_TRANSIENT)"

definition delivery_label :: "json \<Rightarrow> jlabel" where
  "delivery_label status = (if status = JStr ''delivered'' then L_DELIVER
     else if status = JStr ''failed'' then L_UNDELIVERED else L_POLL)"

lemma send_transition_step:
  assumes "send_transition s u now r j = Inr j'" "j_status j = SENDING"
  shows "step_of s (abs_job j) (send_label r) (abs_job j') \<and> same_identity j j'"
proof (cases "sr_outcome r")
  case S_ACCEPTED
  with assms show ?thesis
    by (cases "truthy (sr_dm_id r)")
      (auto simp: send_transition_def Let_def abs_job_def same_identity_def send_label_def
        dest: handle_transient_failure_step[unfolded abs_job_def same_identity_def]
        intro: job_step.accept split: sum.splits)
qed (use assms handle_transient_failure_step in
      \<open>auto simp: send_transition_def Let_def abs_job_def same_identity_def send_label_def
        dest!: schedule_retryD give_upD intro: job_step.throttle job_step.reject\<close>)

lemma delivery_transition_step:
  assumes "delivery_transition s u now status j = Inr j'" "j_status j = ACCEPTED"
  shows "step_of s (abs_job j) (delivery_label status) (abs_job j') \<and> same_identity j j'"
  using assms
  by (auto simp: delivery_transition_def Let_def abs_job_def same_identity_def delivery_label_def
      simp del: of_nat_Suc
      dest!: schedule_retryD give_upD intro: job_step.intros split: if_splits sum.splits)

text \<open>
  C14: Applying a send response implements the state machine: a job that was \<open>sending\<close> makes
  exactly the transition its outcome calls for (accepted with a \<open>dm_id\<close>: \<open>accepted\<close> and the
  transient budget fresh; 429 and 401/403: \<open>retry_wait\<close> with no budget spent; invalid:
  \<open>failed\<close>; everything else: one transient failure, \<open>failed\<close> when the budget is used up),
  and never changes whom it is for.
\<close>

theorem send_result_refines:
  assumes "apply_send_result s u now r j d = Inr d'" and "j_status j = SENDING"
    and "j \<in> set (d_jobs d)"
  shows "\<exists>j'. step_of s (abs_job j) (send_label r) (abs_job j') \<and> same_identity j j'
     \<and> d' = d\<lparr>d_jobs := replace_by j_id j' (d_jobs d)\<rparr> \<and> get_job (j_id j) d' = Some j'"
proof -
  obtain j' where j': "send_transition s u now r j = Inr j'" "flush_job j' d = Inr d'"
    using assms(1) by (auto simp: apply_send_result_def split: sum.splits)
  from send_transition_step[OF j'(1) assms(2)] have step:
    "step_of s (abs_job j) (send_label r) (abs_job j')" "same_identity j j'" by auto
  moreover have d': "d' = d\<lparr>d_jobs := replace_by j_id j' (d_jobs d)\<rparr>"
    using j'(2) by (auto simp: flush_job_def split: if_splits)
  moreover have "get_job (j_id j) d' = Some j'"
    using d' step(2) assms(3) by (simp add: get_job_def same_identity_def find_by_replace_by_same)
  ultimately show ?thesis by blast
qed

definition sending_job :: job where
  "sending_job = (new_job rule1 ''u1'' (Some ''c1'') 5)\<lparr>j_id := 1, j_status := SENDING\<rparr>"

definition sending_db :: db where
  "sending_db = db1\<lparr>d_jobs := [sending_job]\<rparr>"

definition accepted_result :: send_result where
  "accepted_result = (blank_result S_ACCEPTED JNull)\<lparr>sr_dm_id := JStr ''dm_1''\<rparr>"

definition accepted_job :: job where
  "accepted_job = sending_job\<lparr>j_status := ACCEPTED, j_attempts := 1, j_dm_id := Some ''dm_1'',
     j_updated_at := 10\<rparr>"

definition accepted_db :: db where
  "accepted_db = db1\<lparr>d_jobs := [accepted_job]\<rparr>"

lemma sending_db_in: "sending_job \<in> set (d_jobs sending_db)" "j_status sending_job = SENDING"
  by (simp_all add: sending_db_def sending_job_def)

lemma accepted_db_in: "accepted_job \<in> set (d_jobs accepted_db)" "j_status accepted_job = ACCEPTED"
  by (simp_all add: accepted_db_def accepted_job_def)

lemma sending_db_accept:
  "apply_send_result default_settings 0 10 accepted_result sending_job sending_db = Inr accepted_db"
  by code_simp

theorem send_result_refines_witness:
  "\<exists>j'. step_of default_settings (abs_job sending_job) L_ACCEPT (abs_job j')
     \<and> get_job 1 accepted_db = Some j'"
proof -
  have "send_label accepted_result = L_ACCEPT" "j_id sending_job = 1"
    by (simp_all add: send_label_def accepted_result_def sending_job_def)
  with send_result_refines[OF sending_db_accept sending_db_in(2,1)] show ?thesis by auto
qed

text \<open>
  C15: Applying a delivery status implements the state machine: an \<open>accepted\<close> job becomes
  \<open>delivered\<close> only for the answer \<open>delivered\<close>, starts a new send cycle (or fails when the
  delivery budget is used up) only for \<open>failed\<close>, and stays \<open>accepted\<close> for any other answer.
\<close>

theorem delivery_status_refines:
  assumes "apply_delivery_status s u now status j d = Inr d'" and "j_status j = ACCEPTED"
    and "j \<in> set (d_jobs d)"
  shows "\<exists>j'. step_of s (abs_job j) (delivery_label status) (abs_job j') \<and> same_identity j j'
     \<and> d' = d\<lparr>d_jobs := replace_by j_id j' (d_jobs d)\<rparr> \<and> get_job (j_id j) d' = Some j'"
proof -
  obtain j' where j': "delivery_transition s u now status j = Inr j'" "flush_job j' d = Inr d'"
    using assms(1) by (auto simp: apply_delivery_status_def split: sum.splits)
  from delivery_transition_step[OF j'(1) assms(2)] have step:
    "step_of s (abs_job j) (delivery_label status) (abs_job j')" "same_identity j j'" by auto
  moreover have d': "d' = d\<lparr>d_jobs := replace_by j_id j' (d_jobs d)\<rparr>"
    using j'(2) by (auto simp: flush_job_def split: if_splits)
  moreover have "get_job (j_id j) d' = Some j'"
    using d' step(2) assms(3) by (simp add: get_job_def same_identity_def find_by_replace_by_same)
  ultimately show ?thesis by blast
qed

theorem delivery_status_refines_witness:
  "\<exists>d' j'. apply_delivery_status default_settings 0 20 (JStr ''failed'') accepted_job accepted_db = Inr d'
     \<and> step_of default_settings (abs_job accepted_job) L_UNDELIVERED (abs_job j')
     \<and> get_job 1 d' = Some j'"
proof -
  have "case apply_delivery_status default_settings 0 20 (JStr ''failed'') accepted_job accepted_db
      of Inl _ \<Rightarrow> False | Inr _ \<Rightarrow> True"
    by code_simp
  then obtain d' where d': "apply_delivery_status default_settings 0 20 (JStr ''failed'')
      accepted_job accepted_db = Inr d'"
    by (auto split: sum.splits)
  moreover have "delivery_label (JStr ''failed'') = L_UNDELIVERED" "j_id accepted_job = 1"
    by (simp_all add: delivery_label_def accepted_job_def sending_job_def)
  ultimately show ?thesis
    using delivery_status_refines[OF d' accepted_db_in(2,1)] by auto
qed

section \<open>What the machine guarantees\<close>

text \<open>
  The retry budgets bound the work for one job.  In every state the machine can reach,
  with budgets of at least one, at most \<open>D\<close> deliveries have failed, the requests charged to
  the job (\<open>attempts\<close> less the failed deliveries, which \<open>attempts\<close> also counts) are at most
  \<open>M * D\<close>, and a job that is still alive has used up neither budget.
\<close>

lemma retry_budgets:
  assumes "1 \<le> M" "1 \<le> D" and "reachable job_start (job_step M D) (st, a, t, c)"
  shows "int c \<le> D \<and> int a - int c \<le> M * D
     \<and> (st \<noteq> FAILED \<longrightarrow> int t < M \<and> int c < D)"
proof -
  have "job_budget M D (st, a, t, c)"
    using invariant_system.reachable_inv[OF budget_system[OF assms(1,2)] assms(3)] .
  then show ?thesis
    using assms(1) budget_product[of c D M] by (auto split: if_splits)
qed

section \<open>When a response can be applied\<close>

definition is_text :: "json \<Rightarrow> bool" where
  "is_text v \<longleftrightarrow> (case v of JNull \<Rightarrow> True | JStr _ \<Rightarrow> True | _ \<Rightarrow> False)"

definition text_result :: "send_result \<Rightarrow> bool" where
  "text_result r \<longleftrightarrow> is_text (sr_dm_id r) \<and> is_text (sr_error r)"

text \<open>Every delay the settings or the server can ask for is at most \<open>b\<close> seconds.\<close>

definition delays_within :: "int \<Rightarrow> settings \<Rightarrow> send_result \<Rightarrow> bool" where
  "delays_within b s r \<longleftrightarrow> 1 \<le> b \<and> max_dm_attempts s \<le> 1024
     \<and> 0 \<le> retry_base_seconds s \<and> 0 \<le> retry_max_backoff_seconds s \<and> 0 \<le> retry_jitter_ratio s
     \<and> retry_max_backoff_seconds s * (1 + retry_jitter_ratio s) \<le> of_int b
     \<and> 0 \<le> send_rate_limit_window_seconds s \<and> send_rate_limit_window_seconds s \<le> of_int b
     \<and> 0 \<le> auth_error_pause_seconds s \<and> auth_error_pause_seconds s \<le> of_int b
     \<and> (case sr_retry_after r of None \<Rightarrow> True
          | Some x \<Rightarrow> (case x of FNum q \<Rightarrow> 0 \<le> q \<and> q \<le> of_int b | _ \<Rightarrow> False))"

lemma is_text_cases: "is_text v \<Longrightarrow> v = JNull \<or> (\<exists>t. v = JStr t)"
  by (cases v) (simp_all add: is_text_def)

lemma error_column_text: "is_text v \<Longrightarrow> \<exists>le. error_column v = Inr le"
  by (drule is_text_cases)
    (auto simp: error_column_def py_slice_def py_or_def bind_text_def)

lemma is_text_py_or: "is_text a \<Longrightarrow> is_text b \<Longrightarrow> is_text (py_or a b)"
  by (simp add: py_or_def)

lemma schedule_retry_total:
  assumes "0 \<le> q" "q \<le> of_int b" "0 \<le> now" "now + b * 1000000 < max_time" "is_text err"
  shows "\<exists>j'. schedule_retry (FNum q) err now j = Inr j'"
  using plus_seconds_total[OF assms(1-4)] error_column_text[OF assms(5)]
  by (auto simp: schedule_retry_def retry_time_def)

lemma give_up_total: "is_text err \<Longrightarrow> \<exists>j'. give_up err now j = Inr j'"
  using error_column_text by (fastforce simp: give_up_def)

lemma handle_transient_failure_total:
  assumes "delays_within b s r" "0 \<le> u" "u \<le> 1" "0 \<le> now" "now + b * 1000000 < max_time"
    and "is_text err"
  shows "\<exists>j'. handle_transient_failure s u err now j = Inr j'"
proof (cases "int (Suc (j_transient_failures j)) \<ge> max_dm_attempts s")
  case True
  then show ?thesis
    using give_up_total[OF assms(6)] by (simp add: handle_transient_failure_def Let_def)
next
  case False
  have n: "Suc (j_transient_failures j) \<le> 1024"
    using False assms(1) by (simp add: delays_within_def)
  from backoff_delay_bounds[OF n assms(2,3), of s] assms(1) obtain x where
    x: "backoff_delay (Suc (j_transient_failures j)) s u = Inr x" "1 / 10 \<le> x"
      "x \<le> max (1 / 10) (retry_max_backoff_seconds s * (1 + retry_jitter_ratio s))"
    by (auto simp: delays_within_def)
  have "x \<le> of_int b" "0 \<le> x"
    using x(2,3) assms(1) by (auto simp: delays_within_def le_max_iff_disj)
  with schedule_retry_total[OF _ _ assms(4,5,6)] x(1) False show ?thesis
    by (auto simp: handle_transient_failure_def Let_def)
qed

lemma send_transition_possible:
  assumes "text_result r" and "delays_within b s r" and "0 \<le> u" "u \<le> 1"
    and "0 \<le> now" "now + b * 1000000 < max_time"
  shows "\<exists>j'. send_transition s u now r j = Inr j'"
proof -
  have err: "is_text (sr_error r)" "is_text (JStr t)" for t
    using assms(1) by (simp_all add: text_result_def is_text_def)
  have dm: "\<exists>v. bind_text (sr_dm_id r) = Inr v"
    using assms(1) is_text_cases by (force simp: text_result_def bind_text_def)
  have tf: "\<exists>j'. handle_transient_failure s u e now k = Inr j'" if "is_text e" for e k
    by (rule handle_transient_failure_total[OF assms(2-6) that])
  have sr: "\<exists>j'. schedule_retry (FNum q) (JStr t) now k = Inr j'" if "0 \<le> q" "q \<le> of_int b" for q t k
    by (rule schedule_retry_total[OF that assms(5,6) err(2)])
  have gu: "\<exists>j'. give_up (py_or (sr_error r) (JStr t)) now k = Inr j'" for t k
    by (rule give_up_total) (simp add: is_text_py_or err)
  show ?thesis
    using assms(2) dm tf[OF err(2)] tf[OF is_text_py_or[OF err]] sr gu
    by (auto simp: send_transition_def Let_def delays_within_def split: option.splits pyfloat.splits)
qed

text \<open>
  C34: Nothing in a well-typed response can make its application fail: when \<open>dm_id\<close> and the
  error are text (or absent) and the delays are bounded, every outcome yields a next state,
  for every draw of the random source.
\<close>

theorem send_transition_total:
  assumes "text_result r" and "delays_within b s r" and "0 \<le> u" "u \<le> 1"
    and "0 \<le> now" "now + b * 1000000 < max_time"
  shows "\<exists>j'. send_transition s u now r j = Inr j'"
  by (rule send_transition_possible[OF assms])

theorem send_transition_total_witness:
  "\<exists>j'. send_transition default_settings 0 10 accepted_result sending_job = Inr j'"
proof (rule send_transition_total)
  show "text_result accepted_result"
    by (simp add: text_result_def is_text_def accepted_result_def)
  show "delays_within 400 default_settings accepted_result"
    by (simp add: delays_within_def default_settings_simps accepted_result_def)
qed (simp_all add: max_time_def)

text \<open>
  A response whose fields are not text does raise, and then the job keeps its state: a
  validation error in the usual list form (\<open>{"detail": [...]}\<close>) on an \<open>INVALID\<close> answer
  cannot be stored in \<open>last_error\<close>, and an infinite \<open>Retry-After\<close> cannot become a datetime.
\<close>

theorem send_transition_raises:
  "(sr_outcome r = S_INVALID \<and> sr_error r = JArr (x # xs) \<longrightarrow>
      apply_send_result s u now r j d = Inl BindError)
   \<and> (sr_outcome r = S_RATE_LIMITED \<and> sr_retry_after r = Some FInf \<longrightarrow>
      apply_send_result s u now r j d = Inl OverflowError)"
  by (simp add: apply_send_result_def send_transition_def Let_def give_up_def error_column_def
      py_slice_def max_error_length_def bind_text_def schedule_retry_def retry_time_def)

theorem send_transition_raises_witness:
  "apply_send_result default_settings 0 10
     (classify_send \<lparr>hr_status_code = 422, hr_retry_after = None,
        hr_json = Some (JObj [(''detail'', JArr [JObj [(''loc'', JStr ''body'')]])]), hr_text = []\<rparr>)
     sending_job sending_db = Inl BindError"
  by (rule send_transition_raises[THEN conjunct1, rule_format])
    (simp add: classify_send_def Let_def safe_json_def dict_get_def dict_get_default_def)

end
