(* ===== verification/RateLimiter.thy ===== *)
theory RateLimiter
  imports Models "HOL-Library.Multiset"
begin

text \<open>
  \<^verbatim>\<open>app/services/rate_limiter.py\<close>: the rolling-window limiter and its log in the database.
  Clock readings (\<open>time.time()\<close>, seconds) are rationals and arguments; the loop of
  \<open>acquire\<close> runs over the list of readings it gets.  \<open>ok\<close> says whether the database
  operation of a step succeeds (an error there is logged and swallowed).
\<close>

section \<open>The attempt store\<close>

definition load_recent :: "rat \<Rightarrow> db \<Rightarrow> rat list" where
  "load_recent since_ts d = sort (filter (\<lambda>t. since_ts \<le> t) (map snd (d_send_log d)))"

definition record_attempt :: "rat \<Rightarrow> db \<Rightarrow> db" where
  "record_attempt ts d =
     d\<lparr>d_send_log := d_send_log d @ [(next_pk (map fst (d_send_log d)), ts)]\<rparr>"

definition prune :: "rat \<Rightarrow> db \<Rightarrow> db" where
  "prune before_ts d = d\<lparr>d_send_log := filter (\<lambda>r. \<not> snd r < before_ts) (d_send_log d)\<rparr>"

text \<open>What the limiter relies on.\<close>

locale attempt_store =
  fixes load :: "rat \<Rightarrow> 's \<Rightarrow> rat list" and rec :: "rat \<Rightarrow> 's \<Rightarrow> 's"
    and drop_before :: "rat \<Rightarrow> 's \<Rightarrow> 's"
  assumes load_sorted: "sorted (load since s)"
    and load_rec: "mset (load since (rec t s)) =
      mset (load since s) + (if since \<le> t then {#t#} else {#})"
    and load_drop: "load since (drop_before b s) = filter (\<lambda>t. b \<le> t) (load since s)"
begin

lemma rec_history:
  assumes "\<And>since. load since s = filter (\<lambda>t. since \<le> t \<and> p \<le> t) gs"
    and "sorted (gs @ [t])" "p \<le> t"
  shows "load since (rec t s) = filter (\<lambda>t. since \<le> t \<and> p \<le> t) (gs @ [t])"
proof -
  have "mset (load since (rec t s)) = mset (filter (\<lambda>t. since \<le> t \<and> p \<le> t) (gs @ [t]))"
    using assms(1,3) by (simp add: load_rec)
  moreover have "sorted (filter (\<lambda>t. since \<le> t \<and> p \<le> t) (gs @ [t]))"
    using assms(2) by (rule sorted_wrt_filter)
  ultimately show ?thesis
    using load_sorted properties_for_sort by metis
qed

lemma drop_history:
  assumes "\<And>since. load since s = filter (\<lambda>t. since \<le> t \<and> p \<le> t) gs"
  shows "load since (drop_before b s) = filter (\<lambda>t. since \<le> t \<and> max p b \<le> t) gs"
  by (auto simp: load_drop assms intro!: filter_cong)

end

interpretation log: attempt_store load_recent record_attempt prune
proof
  show "load_recent since (prune b d) = filter (\<lambda>t. b \<le> t) (load_recent since d)" for since b d
    by (simp add: load_recent_def prune_def filter_sort filter_map comp_def not_less conj_commute)
qed (simp_all add: load_recent_def record_attempt_def)

section \<open>The limiter\<close>

record limiter =
  rl_max_calls :: int
  rl_window_seconds :: rat
  rl_safety_seconds :: rat
  rl_store :: bool
  rl_timestamps :: "rat list"

definition new_limiter :: "int \<Rightarrow> rat \<Rightarrow> rat \<Rightarrow> bool \<Rightarrow> limiter" where
  "new_limiter max_calls window_seconds safety_seconds store =
     \<lparr>rl_max_calls = max_calls, rl_window_seconds = window_seconds,
      rl_safety_seconds = safety_seconds, rl_store = store, rl_timestamps = []\<rparr>"

definition trim :: "rat \<Rightarrow> limiter \<Rightarrow> limiter" where
  "trim now l = (let horizon = now - rl_window_seconds l
     in l\<lparr>rl_timestamps := dropWhile (\<lambda>t. t \<le> horizon) (rl_timestamps l)\<rparr>)"

definition seed :: "rat list \<Rightarrow> rat \<Rightarrow> limiter \<Rightarrow> limiter" where
  "seed timestamps now l = trim now (l\<lparr>rl_timestamps := sort timestamps\<rparr>)"

text \<open>Two readings of the clock: the cut-off, and \<open>seed\<close>'s.\<close>

definition warm_start :: "bool \<Rightarrow> rat \<Rightarrow> rat \<Rightarrow> limiter \<times> db \<Rightarrow> limiter \<times> db" where
  "warm_start ok c1 c2 = (\<lambda>(l, d).
     if \<not> rl_store l then (l, d)
     else let cutoff = c1 - rl_window_seconds l
          in if \<not> ok then (l, d)
             else (seed (load_recent cutoff d) c2 l, prune cutoff d))"

definition available_now :: "rat \<Rightarrow> limiter \<Rightarrow> limiter \<times> int" where
  "available_now now l =
     (let l1 = trim now l in (l1, max 0 (rl_max_calls l1 - int (length (rl_timestamps l1)))))"

definition persist :: "bool \<Rightarrow> rat \<Rightarrow> limiter \<Rightarrow> db \<Rightarrow> db" where
  "persist ok ts l d = (if \<not> rl_store l then d else if ok then record_attempt ts d else d)"

text \<open>One turn of the loop in \<open>acquire\<close>.\<close>

datatype attempt = GRANT rat | SLEEP rat | RAISE py_exc

definition acquire_once :: "bool \<Rightarrow> rat \<Rightarrow> limiter \<times> db \<Rightarrow> (limiter \<times> db) \<times> attempt" where
  "acquire_once ok now = (\<lambda>(l, d).
     let l1 = trim now l in
     if int (length (rl_timestamps l1)) < rl_max_calls l1
     then let l2 = l1\<lparr>rl_timestamps := rl_timestamps l1 @ [now]\<rparr>
          in ((l2, persist ok now l2 d), GRANT now)
     else (case rl_timestamps l1 of
             [] \<Rightarrow> ((l1, d), RAISE IndexError)
           | t # _ \<Rightarrow>
               let wait_for = t + rl_window_seconds l1 + rl_safety_seconds l1 - now
               in ((l1, d), SLEEP (max wait_for (1 / 100)))))"

text \<open>\<open>acquire\<close> over the readings it gets; \<open>Inr None\<close> means that it is still waiting.\<close>

fun acquire :: "(bool \<times> rat) list \<Rightarrow> limiter \<times> db \<Rightarrow> (limiter \<times> db) \<times> rat option res" where
  "acquire [] st = (st, Inr None)"
| "acquire ((ok, now) # cs) st =
     (case acquire_once ok now st of
        (st', GRANT t) \<Rightarrow> (st', Inr (Some t))
      | (st', RAISE e) \<Rightarrow> (st', Inl e)
      | (st', SLEEP w) \<Rightarrow> acquire cs st')"

text \<open>\<open>penalise\<close>: the length of its sleep.\<close>

definition penalise :: "pyfloat \<Rightarrow> pyfloat" where
  "penalise seconds = max_zero seconds"

section \<open>Windows\<close>

definition window_count :: "rat \<Rightarrow> rat \<Rightarrow> rat list \<Rightarrow> nat" where
  "window_count w x gs = length (filter (\<lambda>t. x - w < t \<and> t \<le> x) gs)"

lemma dropWhile_sorted: "sorted ts \<Longrightarrow> dropWhile (\<lambda>t. t \<le> k) ts = filter (\<lambda>t. (k::rat) < t) ts"
proof (induction ts)
  case (Cons t ts)
  have "filter (\<lambda>t. k < t) ts = ts" if "\<not> t \<le> k"
    using Cons.prems that by (intro filter_True) auto
  then show ?case using Cons by auto
qed simp

text \<open>
  A run: attempts (each reading of the clock in some \<open>acquire\<close>) and restarts of the process,
  with a database that works.  The result lists the granted sends.
\<close>

datatype limiter_action = ATTEMPT rat | RESTART rat rat

fun action_times :: "limiter_action \<Rightarrow> rat list" where
  "action_times (ATTEMPT now) = [now]"
| "action_times (RESTART c1 c2) = [c1, c2]"

fun limiter_run :: "limiter_action list \<Rightarrow> limiter \<times> db \<Rightarrow> (limiter \<times> db) \<times> rat list" where
  "limiter_run [] st = (st, [])"
| "limiter_run (ATTEMPT now # acts) st =
     (case acquire_once True now st of
        (st', GRANT t) \<Rightarrow> (let (st2, gs) = limiter_run acts st' in (st2, t # gs))
      | (st', _) \<Rightarrow> limiter_run acts st')"
| "limiter_run (RESTART c1 c2 # acts) st =
     limiter_run acts (warm_start True c1 c2 ((fst st)\<lparr>rl_timestamps := []\<rparr>, snd st))"

section \<open>The limit holds, across restarts\<close>

definition limiter_inv :: "rat \<Rightarrow> int \<Rightarrow> rat \<Rightarrow> rat list \<Rightarrow> limiter \<times> db \<Rightarrow> bool" where
  "limiter_inv w n now gs = (\<lambda>(l, d).
     rl_window_seconds l = w \<and> rl_max_calls l = n \<and> rl_store l
     \<and> sorted gs \<and> (\<forall>g \<in> set gs. g \<le> now)
     \<and> (\<exists>h \<le> now - w. rl_timestamps l = filter (\<lambda>t. h < t) gs)
     \<and> (\<exists>p \<le> now - w. \<forall>since. load_recent since d = filter (\<lambda>t. since \<le> t \<and> p \<le> t) gs)
     \<and> (\<forall>x. window_count w x gs \<le> nat n))"

lemma limiter_inv_later: "limiter_inv w n now gs st \<Longrightarrow> now \<le> now' \<Longrightarrow> limiter_inv w n now' gs st"
proof -
  assume inv: "limiter_inv w n now gs st" and le: "now \<le> now'"
  have le': "h \<le> now' - w" if "h \<le> now - w" for h using le that by linarith
  show "limiter_inv w n now' gs st"
    using inv order_trans[OF _ le] le' unfolding limiter_inv_def split_beta by blast
qed

lemma trim_timestamps:
  assumes "limiter_inv w n now gs (l, d)"
  shows "rl_timestamps (trim now l) = filter (\<lambda>t. now - w < t) gs"
proof -
  obtain h where h: "h \<le> now - w" "rl_timestamps l = filter (\<lambda>t. h < t) gs"
    and s: "sorted gs" "rl_window_seconds l = w"
    using assms by (auto simp: limiter_inv_def)
  have "sorted (filter (\<lambda>t. h < t) gs)" using s(1) by (rule sorted_wrt_filter)
  then show ?thesis
    using h s(2) by (auto simp: trim_def Let_def dropWhile_sorted intro!: filter_cong)
qed

lemma trim_fields [simp]:
  "rl_window_seconds (trim now l) = rl_window_seconds l" "rl_max_calls (trim now l) = rl_max_calls l"
  "rl_store (trim now l) = rl_store l" "rl_safety_seconds (trim now l) = rl_safety_seconds l"
  by (simp_all add: trim_def Let_def)

lemma limiter_inv_trim:
  "limiter_inv w n now gs (l, d) \<Longrightarrow> limiter_inv w n now gs (trim now l, d)"
  using trim_timestamps[of w n now gs l d] by (auto simp: limiter_inv_def)

lemma window_count_append:
  assumes "\<forall>g \<in> set gs. g \<le> now"
  shows "window_count w x (gs @ [now]) \<le>
    (if now \<le> x then Suc (length (filter (\<lambda>t. now - w < t) gs)) else window_count w x gs)"
proof (cases "now \<le> x")
  case True
  then have "\<forall>t. x - w < t \<and> t \<le> x \<longrightarrow> now - w < t" by (auto intro: le_less_trans[OF diff_right_mono])
  then have "length (filter (\<lambda>t. x - w < t \<and> t \<le> x) gs) \<le> length (filter (\<lambda>t. now - w < t) gs)"
    by (intro length_filter_mono) blast
  with True show ?thesis by (simp add: window_count_def)
qed (simp add: window_count_def)

lemma limiter_inv_grant:
  assumes "limiter_inv w n now gs (l, d)" "0 < w"
    and "int (length (rl_timestamps (trim now l))) < n"
  shows "limiter_inv w n now (gs @ [now])
    ((trim now l)\<lparr>rl_timestamps := rl_timestamps (trim now l) @ [now]\<rparr>, record_attempt now d)"
proof -
  obtain p where p: "p \<le> now - w" "\<And>since. load_recent since d = filter (\<lambda>t. since \<le> t \<and> p \<le> t) gs"
    and gs: "sorted gs" "\<forall>g \<in> set gs. g \<le> now" "\<forall>x. window_count w x gs \<le> nat n"
    using assms(1) by (auto simp: limiter_inv_def)
  have sorted: "sorted (gs @ [now])" using gs by (auto simp: sorted_append)
  have log: "\<forall>since. load_recent since (record_attempt now d)
      = filter (\<lambda>t. since \<le> t \<and> p \<le> t) (gs @ [now])"
    using log.rec_history[OF p(2) sorted] p(1) assms(2) by force
  have len: "Suc (length (filter (\<lambda>t. now - w < t) gs)) \<le> nat n"
    using assms(3) trim_timestamps[OF assms(1)] by simp
  have win: "window_count w x (gs @ [now]) \<le> nat n" for x
    using window_count_append[OF gs(2), of w x] len gs(3) by (auto split: if_splits intro: order_trans)
  have ts: "rl_timestamps (trim now l) @ [now] = filter (\<lambda>t. now - w < t) (gs @ [now])"
    using trim_timestamps[OF assms(1)] assms(2) by simp
  show ?thesis
    using assms(1) sorted gs(2) ts log p(1) win
    by (auto simp: limiter_inv_def simp del: filter_append)
qed

lemma acquire_once_cases:
  obtains (grant) l2 where "l2 = (trim now l)\<lparr>rl_timestamps := rl_timestamps (trim now l) @ [now]\<rparr>"
      "int (length (rl_timestamps (trim now l))) < rl_max_calls l"
      "acquire_once ok now (l, d) = ((l2, persist ok now l2 d), GRANT now)"
    | (empty) "rl_timestamps (trim now l) = []" "rl_max_calls l \<le> 0"
      "acquire_once ok now (l, d) = ((trim now l, d), RAISE IndexError)"
    | (full) t ts where "rl_timestamps (trim now l) = t # ts"
      "rl_max_calls l \<le> int (length (rl_timestamps (trim now l)))"
      "acquire_once ok now (l, d) = ((trim now l, d),
         SLEEP (max (t + rl_window_seconds l + rl_safety_seconds l - now) (1 / 100)))"
  by (cases "rl_timestamps (trim now l)";
      cases "int (length (rl_timestamps (trim now l))) < rl_max_calls l")
    (auto simp: acquire_once_def Let_def)

lemma limiter_inv_attempt:
  assumes "limiter_inv w n now gs st" "0 < w"
  shows "case acquire_once True now st of
      (st', GRANT t) \<Rightarrow> t = now \<and> limiter_inv w n now (gs @ [now]) st'
    | (st', _) \<Rightarrow> limiter_inv w n now gs st'"
proof -
  obtain l d where st: "st = (l, d)" by (cases st)
  have f: "rl_max_calls l = n" "rl_store l" using assms(1) by (auto simp: limiter_inv_def st)
  note inv = assms(1)[unfolded st]
  show ?thesis
    by (cases rule: acquire_once_cases[of now l True d])
      (use f limiter_inv_trim[OF inv] limiter_inv_grant[OF inv assms(2)] in
        \<open>auto simp: st persist_def\<close>)
qed

lemma limiter_inv_restart:
  assumes "limiter_inv w n now gs (l, d)" "now \<le> c1" "c1 \<le> c2"
  shows "limiter_inv w n c2 gs (warm_start True c1 c2 (l\<lparr>rl_timestamps := []\<rparr>, d))"
proof -
  obtain p where p: "p \<le> now - w" "\<And>since. load_recent since d = filter (\<lambda>t. since \<le> t \<and> p \<le> t) gs"
    and f: "rl_window_seconds l = w" "rl_store l" "rl_max_calls l = n" "sorted gs"
      "\<forall>g \<in> set gs. g \<le> now" "\<forall>x. window_count w x gs \<le> nat n"
    using assms(1) by (auto simp: limiter_inv_def)
  let ?c = "c1 - w"
  have pc: "p \<le> ?c" using p(1) assms(2) by linarith
  have le: "?c \<le> c2 - w" using assms(3) by simp
  have "load_recent ?c d = filter (\<lambda>t. ?c \<le> t) gs"
    using pc by (auto simp: p(2) intro!: filter_cong)
  then have "rl_timestamps (seed (load_recent ?c d) c2 (l\<lparr>rl_timestamps := []\<rparr>))
      = filter (\<lambda>t. c2 - w < t) (filter (\<lambda>t. ?c \<le> t) gs)"
    using f(1,4) by (simp add: seed_def trim_def Let_def dropWhile_sorted sorted_wrt_filter sort_key_id_if_sorted)
  also have "\<dots> = filter (\<lambda>t. c2 - w < t) gs"
    using le by (auto intro!: filter_cong)
  finally have ts: "rl_timestamps (seed (load_recent ?c d) c2 (l\<lparr>rl_timestamps := []\<rparr>))
      = filter (\<lambda>t. c2 - w < t) gs" .
  have log: "load_recent since (prune ?c d) = filter (\<lambda>t. since \<le> t \<and> max p ?c \<le> t) gs" for since
    by (rule log.drop_history[OF p(2)])
  have "\<exists>p' \<le> c2 - w. \<forall>since. load_recent since (prune ?c d) = filter (\<lambda>t. since \<le> t \<and> p' \<le> t) gs"
  proof (intro exI[of _ "max p ?c"] conjI allI log)
    show "max p ?c \<le> c2 - w" using pc le by simp
  qed
  moreover have "\<forall>g \<in> set gs. g \<le> c2" using f(5) assms(2,3) by force
  ultimately show ?thesis
    using ts f by (auto simp: limiter_inv_def warm_start_def Let_def seed_def)
qed

lemma limiter_run_inv:
  assumes "limiter_inv w n now gs st" "0 < w" "sorted (now # concat (map action_times acts))"
  shows "window_count w x (gs @ snd (limiter_run acts st)) \<le> nat n"
  using assms(1,3)
proof (induction acts arbitrary: now gs st)
  case Nil
  then show ?case by (cases st) (simp add: limiter_inv_def)
next
  case (Cons a acts)
  show ?case
  proof (cases a)
    case (ATTEMPT t)
    have t: "now \<le> t" "sorted (t # concat (map action_times acts))"
      using Cons.prems(2) ATTEMPT by auto
    note step = limiter_inv_attempt[OF limiter_inv_later[OF Cons.prems(1) t(1)] assms(2)]
    obtain st' r where r: "acquire_once True t st = (st', r)" by (cases "acquire_once True t st")
    show ?thesis
      using step r Cons.IH[OF _ t(2), of gs st'] Cons.IH[OF _ t(2), of "gs @ [t]" st'] ATTEMPT
      by (cases r) (auto simp: Let_def split_beta)
  next
    case (RESTART c1 c2)
    obtain l d where st: "st = (l, d)" by (cases st)
    have t: "now \<le> c1" "c1 \<le> c2" "sorted (c2 # concat (map action_times acts))"
      using Cons.prems(2) RESTART by auto
    show ?thesis
      using Cons.IH[OF limiter_inv_restart[OF Cons.prems(1)[unfolded st] t(1,2)] t(3)] RESTART st
      by simp
  qed
qed

lemma limiter_run_sorted:
  assumes "limiter_inv w n now gs st" "0 < w" "sorted (now # concat (map action_times acts))"
  shows "sorted (gs @ snd (limiter_run acts st))"
  using assms(1,3)
proof (induction acts arbitrary: now gs st)
  case Nil
  then show ?case by (cases st) (simp add: limiter_inv_def)
next
  case (Cons a acts)
  show ?case
  proof (cases a)
    case (ATTEMPT t)
    have t: "now \<le> t" "sorted (t # concat (map action_times acts))"
      using Cons.prems(2) ATTEMPT by auto
    note step = limiter_inv_attempt[OF limiter_inv_later[OF Cons.prems(1) t(1)] assms(2)]
    obtain st' r where r: "acquire_once True t st = (st', r)" by (cases "acquire_once True t st")
    show ?thesis
      using step r Cons.IH[OF _ t(2), of gs st'] Cons.IH[OF _ t(2), of "gs @ [t]" st'] ATTEMPT
      by (cases r) (auto simp: Let_def split_beta)
  next
    case (RESTART c1 c2)
    obtain l d where st: "st = (l, d)" by (cases st)
    have t: "now \<le> c1" "c1 \<le> c2" "sorted (c2 # concat (map action_times acts))"
      using Cons.prems(2) RESTART by auto
    show ?thesis
      using Cons.IH[OF limiter_inv_restart[OF Cons.prems(1)[unfolded st] t(1,2)] t(3)] RESTART st
      by simp
  qed
qed

lemma sorted_with_start:
  assumes "sorted (ts :: rat list)" shows "\<exists>now. sorted (now # ts)"
  using assms by (cases ts) (auto intro: exI[of _ "hd ts"])

lemma limiter_inv_start:
  "d_send_log d = [] \<Longrightarrow> limiter_inv w n now [] (new_limiter n w safety True, d)"
  by (auto simp: limiter_inv_def new_limiter_def load_recent_def window_count_def
      intro!: exI[of _ "now - w"])

text \<open>
  C16: The send limit holds in every rolling window.  Over any run of attempts and process
  restarts (clock not running backwards, log working), at most \<open>max_calls\<close> sends are granted
  in any interval \<open>(x - window, x]\<close>: a restart does not forget the last window.
\<close>

theorem rate_limit_holds_across_restarts:
  assumes "0 < w" and "sorted (concat (map action_times acts))"
    and "d_send_log d = []"
  shows "window_count w x (snd (limiter_run acts (new_limiter n w safety True, d))) \<le> nat n"
proof -
  obtain now where now: "sorted (now # concat (map action_times acts))"
    using sorted_with_start[OF assms(2)] by blast
  from limiter_run_inv[OF limiter_inv_start[OF assms(3)] assms(1) now] show ?thesis by simp
qed

theorem rate_limit_holds_across_restarts_witness:
  "snd (limiter_run [ATTEMPT 1, ATTEMPT 2, ATTEMPT 3, RESTART 4 5, ATTEMPT 6, ATTEMPT 61, ATTEMPT 63]
      (new_limiter 2 60 0 True, empty_db)) = [1, 2, 61, 63]
   \<and> window_count 60 61 (snd (limiter_run
      [ATTEMPT 1, ATTEMPT 2, ATTEMPT 3, RESTART 4 5, ATTEMPT 6, ATTEMPT 61, ATTEMPT 63]
      (new_limiter 2 60 0 True, empty_db))) \<le> 2"
proof
  show "snd (limiter_run [ATTEMPT 1, ATTEMPT 2, ATTEMPT 3, RESTART 4 5, ATTEMPT 6, ATTEMPT 61, ATTEMPT 63]
      (new_limiter 2 60 0 True, empty_db)) = [1, 2, 61, 63]"
    by code_simp
  have e: "d_send_log empty_db = []" by (simp add: empty_db_def)
  show "window_count 60 61 (snd (limiter_run
      [ATTEMPT 1, ATTEMPT 2, ATTEMPT 3, RESTART 4 5, ATTEMPT 6, ATTEMPT 61, ATTEMPT 63]
      (new_limiter 2 60 0 True, empty_db))) \<le> 2"
    by (rule order_trans[OF rate_limit_holds_across_restarts[OF _ _ e]]) simp_all
qed

section \<open>Waiting ends\<close>

text \<open>Every sleep that \<open>acquire\<close> asks for is over before the next reading of the clock.\<close>

fun sleeps_kept :: "(bool \<times> rat) list \<Rightarrow> limiter \<times> db \<Rightarrow> bool" where
  "sleeps_kept ((ok, now) # (ok', next) # cs) st =
     (case acquire_once ok now st of
        (st', SLEEP w) \<Rightarrow> now + w \<le> next \<and> sleeps_kept ((ok', next) # cs) st'
      | _ \<Rightarrow> True)"
| "sleeps_kept _ st = True"

lemma trim_length: "length (rl_timestamps (trim now l)) \<le> length (rl_timestamps l)"
  by (simp add: trim_def Let_def length_dropWhile_le)

lemma trim_head_old:
  "rl_timestamps l = t # ts \<Longrightarrow> t \<le> now - rl_window_seconds l \<Longrightarrow>
   length (rl_timestamps (trim now l)) < length (rl_timestamps l)"
  by (simp add: trim_def Let_def le_imp_less_Suc length_dropWhile_le)

lemma acquire_grants:
  assumes "1 \<le> rl_max_calls l" "0 \<le> rl_safety_seconds l"
    and "sleeps_kept cs (l, d)" "0 < length cs"
    and "int (length (rl_timestamps (trim (snd (hd cs)) l))) < int (length cs) + rl_max_calls l - 1"
  shows "\<exists>t. snd (acquire cs (l, d)) = Inr (Some t) \<and> t \<in> snd ` set cs"
  using assms
proof (induction cs arbitrary: l)
  case (Cons c cs)
  obtain ok now where c: "c = (ok, now)" by (cases c)
  show ?case
  proof (cases rule: acquire_once_cases[of now l ok d])
    case (grant l2)
    then show ?thesis by (simp add: c)
  next
    case empty
    then show ?thesis using Cons.prems(1) by simp
  next
    case (full t ts)
    let ?l = "trim now l"
    have "cs \<noteq> []" using full(2) Cons.prems(5) c by (cases cs) simp_all
    then obtain ok' nxt cs' where cs: "cs = (ok', nxt) # cs'" by (metis list.exhaust surj_pair)
    let ?w = "max (t + rl_window_seconds l + rl_safety_seconds l - now) (1 / 100)"
    have kept: "now + ?w \<le> nxt" "sleeps_kept cs (?l, d)" using Cons.prems(3) full(3) c cs by auto
    have "now + (t + rl_window_seconds l + rl_safety_seconds l - now) \<le> nxt"
      using kept(1) by (rule order_trans[rotated]) simp
    then have "t \<le> nxt - rl_window_seconds ?l" using Cons.prems(2) by simp
    from trim_head_old[OF full(1) this] have "length (rl_timestamps (trim nxt ?l)) < length (rl_timestamps ?l)" .
    then have "int (length (rl_timestamps (trim (snd (hd cs)) ?l))) < int (length cs) + rl_max_calls ?l - 1"
      using Cons.prems(5) c cs by simp
    from Cons.IH[of ?l, OF _ _ kept(2) _ this] Cons.prems(1,2) cs full(3) show ?thesis
      by (auto simp: c)
  qed
qed simp

lemma acquire_reading: "snd (acquire cs st) = Inr (Some t) \<Longrightarrow> t \<in> snd ` set cs"
proof (induction cs arbitrary: st)
  case (Cons c cs)
  obtain ok now where c: "c = (ok, now)" by (cases c)
  obtain l d where st: "st = (l, d)" by (cases st)
  show ?case
    by (cases rule: acquire_once_cases[of now l ok d]) (use Cons in \<open>auto simp: c st\<close>)
qed simp

text \<open>
  C35: \<open>acquire\<close> returns.  With a limit of at least one call and sleeps that are kept, at most
  one turn more than the number of sends that have to age out grants the slot: two readings
  of the clock when at most \<open>max_calls\<close> sends are remembered, and more only when a restart
  with a lower limit remembers more of them.
\<close>

theorem acquire_terminates:
  assumes "1 \<le> rl_max_calls l" and "0 \<le> rl_safety_seconds l" and "sleeps_kept cs (l, d)"
    and "2 \<le> length cs" and "int (length (rl_timestamps l)) + 2 \<le> int (length cs) + rl_max_calls l"
  shows "\<exists>t. snd (acquire cs (l, d)) = Inr (Some t) \<and> t \<in> snd ` set cs"
proof (rule acquire_grants[OF assms(1-3)])
  show "0 < length cs" using assms(4) by linarith
  show "int (length (rl_timestamps (trim (snd (hd cs)) l))) < int (length cs) + rl_max_calls l - 1"
    using trim_length[of "snd (hd cs)" l] assms(5) by linarith
qed

definition full_limiter :: limiter where
  "full_limiter = (new_limiter 1 60 (1 / 2) True)\<lparr>rl_timestamps := [100]\<rparr>"

theorem acquire_terminates_witness:
  "\<exists>t. snd (acquire [(True, 110), (True, 161)] (full_limiter, empty_db)) = Inr (Some t)"
proof -
  have "1 \<le> rl_max_calls full_limiter" "0 \<le> rl_safety_seconds full_limiter"
    "int (length (rl_timestamps full_limiter)) + 2 \<le> int (length [(True, 110), (True, 161 :: rat)]) + rl_max_calls full_limiter"
    by (simp_all add: full_limiter_def new_limiter_def)
  moreover have "sleeps_kept [(True, 110), (True, 161)] (full_limiter, empty_db)" by code_simp
  ultimately show ?thesis
    using acquire_terminates[of full_limiter "[(True, 110), (True, 161)]" empty_db] by auto
qed

text \<open>
  What the limiter does not do.  With a limit that is not positive, \<open>acquire\<close> on an empty
  window raises \<open>IndexError\<close> instead of waiting; and the safety margin only lengthens a
  sleep: a send that finds the window just aged out is granted exactly \<open>window\<close> seconds after
  the first, not \<open>window + safety\<close>.
\<close>

theorem acquire_edge_cases:
  "snd (acquire_once ok now (new_limiter 0 w s True, d)) = RAISE IndexError
   \<and> (0 < w \<longrightarrow> snd (limiter_run [ATTEMPT 0, ATTEMPT w] (new_limiter 1 w s True, d)) = [0, w])"
  by (simp add: acquire_once_def new_limiter_def trim_def Let_def)

theorem acquire_edge_cases_witness:
  "snd (limiter_run [ATTEMPT 0, ATTEMPT 60] (new_limiter 1 60 (1 / 2) True, empty_db)) = [0, 60]"
  using acquire_edge_cases[of True 0 60 "1 / 2" empty_db] by simp

end
