(* ===== verification/Reconciliation.thy ===== *)
theory Reconciliation
  imports JobSpec
begin

text \<open>
  \<^verbatim>\<open>app/services/reconciliation.py\<close>: polling the delivery status of accepted jobs.  The
  server is the request function \<open>get\<close> on the state of the world; \<open>env\<close> is what the other
  tasks commit while a GET is awaited; the clock and the random source are indexed by the
  job (each job is polled at most once in a cycle).
\<close>

definition pollable :: "job \<Rightarrow> bool" where
  "pollable j \<longleftrightarrow> j_status j = ACCEPTED \<and> j_dm_id j \<noteq> None"

definition load_pending :: "nat \<Rightarrow> db \<Rightarrow> (nat \<times> string) list" where
  "load_pending batch_size d =
     map (\<lambda>j. (j_id j, the (j_dm_id j)))
       (take batch_size (sort_key j_updated_at (filter pollable (d_jobs d))))"

definition reconcile_apply ::
  "settings \<Rightarrow> rat \<Rightarrow> time \<Rightarrow> nat \<Rightarrow> json \<Rightarrow> db \<Rightarrow> db \<times> unit res" where
  "reconcile_apply s u now job_id status = session_scope (\<lambda>d.
     case get_job job_id d of
       None \<Rightarrow> Inr (d, ())
     | Some j \<Rightarrow>
         if j_status j \<noteq> ACCEPTED then Inr (d, ())
         else (case apply_delivery_status s u now status j d of
                 Inl e \<Rightarrow> Inl e | Inr d' \<Rightarrow> Inr (d', ())))"

fun reconcile_loop ::
  "settings \<Rightarrow> ('w \<Rightarrow> string \<Rightarrow> 'w \<times> http_reply) \<Rightarrow> (nat \<Rightarrow> rat) \<Rightarrow> (nat \<Rightarrow> time) \<Rightarrow> (nat \<Rightarrow> db \<Rightarrow> db)
     \<Rightarrow> (nat \<times> string) list \<Rightarrow> nat \<Rightarrow> 'w \<Rightarrow> db \<Rightarrow> ('w \<times> db) \<times> nat res" where
  "reconcile_loop s get u now env [] checked w d = ((w, d), Inr checked)"
| "reconcile_loop s get u now env ((job_id, dm_id) # pending) checked w d =
     (let (w', result) = get_dm_status s get w dm_id; d1 = env job_id d in
      case result of
        Inl e \<Rightarrow> ((w', d1), Inl e)
      | Inr r \<Rightarrow>
          (case st_outcome r of
             ST_OK \<Rightarrow>
               (case reconcile_apply s (u job_id) (now job_id) job_id (st_status r) d1 of
                  (d2, Inl e) \<Rightarrow> ((w', d2), Inl e)
                | (d2, Inr _) \<Rightarrow> reconcile_loop s get u now env pending (checked + 1) w' d2)
           | ST_NOT_FOUND \<Rightarrow> reconcile_loop s get u now env pending (checked + 1) w' d1
           | ST_ERROR \<Rightarrow> reconcile_loop s get u now env pending (checked + 1) w' d1))"

definition reconcile_once ::
  "settings \<Rightarrow> nat \<Rightarrow> ('w \<Rightarrow> string \<Rightarrow> 'w \<times> http_reply) \<Rightarrow> (nat \<Rightarrow> rat) \<Rightarrow> (nat \<Rightarrow> time)
     \<Rightarrow> (nat \<Rightarrow> db \<Rightarrow> db) \<Rightarrow> 'w \<Rightarrow> db \<Rightarrow> ('w \<times> db) \<times> nat res" where
  "reconcile_once s batch_size get u now env w d =
     reconcile_loop s get u now env (load_pending batch_size d) 0 w d"

section \<open>One transaction\<close>

lemma delivery_transition_identity:
  "delivery_transition s u now status j = Inr j' \<Longrightarrow> j_id j' = j_id j \<and> j_rule_id j' = j_rule_id j
     \<and> slot j' = slot j"
  by (auto simp: delivery_transition_def Let_def slot_def simp del: of_nat_Suc
      dest!: schedule_retryD give_upD split: if_splits sum.splits)

lemma flush_live_job:
  assumes "db_ok d" "j \<in> set (d_jobs d)" "holds_slot j" "j_id j' = j_id j" "slot j' = slot j"
  shows "flush_job j' d = Inr (d\<lparr>d_jobs := replace_by j_id j' (d_jobs d)\<rparr>)"
proof -
  have "k = j" if "k \<in> set (d_jobs d)" "holds_slot k" "slot k = slot j" for k
    using db_ok_job_unique[OF assms(1) that(1) assms(2) that(2) assms(3)] that(3) by simp
  then show ?thesis using assms(4,5) by (auto simp: flush_job_def)
qed

lemma reconcile_apply_cases:
  assumes "db_ok d"
  obtains (absent) "get_job i d = None" "reconcile_apply s u now i status d = (d, Inr ())"
    | (other) j where "get_job i d = Some j" "j_status j \<noteq> ACCEPTED"
      "reconcile_apply s u now i status d = (d, Inr ())"
    | (raised) j e where "get_job i d = Some j" "j_status j = ACCEPTED"
      "delivery_transition s u now status j = Inl e"
      "reconcile_apply s u now i status d = (d, Inl e)"
    | (moved) j j' where "get_job i d = Some j" "j_status j = ACCEPTED"
      "delivery_transition s u now status j = Inr j'" "j_id j' = i"
      "reconcile_apply s u now i status d =
         (d\<lparr>d_jobs := replace_by j_id j' (d_jobs d)\<rparr>, Inr ())"
proof (cases "get_job i d")
  case None
  then show ?thesis by (rule absent) (simp add: reconcile_apply_def session_scope_def None)
next
  case (Some j)
  note j = get_job_SomeD[OF Some]
  show ?thesis
  proof (cases "j_status j = ACCEPTED")
    case False
    with Some show ?thesis by (intro other[of j]) (auto simp: reconcile_apply_def session_scope_def)
  next
    case True
    show ?thesis
    proof (cases "delivery_transition s u now status j")
      case (Inl e)
      with Some True show ?thesis
        by (intro raised[of j e]) (auto simp: reconcile_apply_def session_scope_def apply_delivery_status_def)
    next
      case (Inr j')
      note same = delivery_transition_identity[OF Inr]
      have "holds_slot j" using True by (simp add: holds_slot_def)
      from flush_live_job[OF assms j[THEN conjunct1] this, of j'] same
      have "flush_job j' d = Inr (d\<lparr>d_jobs := replace_by j_id j' (d_jobs d)\<rparr>)" by simp
      with Some True Inr same j show ?thesis
        by (intro moved[of j j']) (auto simp: reconcile_apply_def session_scope_def apply_delivery_status_def)
    qed
  qed
qed

lemma reconcile_apply_db_ok [inv_intros]:
  assumes "db_ok d" shows "db_ok (fst (reconcile_apply s u now i status d))"
proof (cases rule: reconcile_apply_cases[OF assms, of i s u now status])
  case (4 j j')
  note j = get_job_SomeD[OF 4(1)] and same = delivery_transition_identity[OF 4(3)]
  have "holds_slot j" using 4(2) by (simp add: holds_slot_def)
  from flush_live_job[OF assms j[THEN conjunct1] this, of j'] same
  have "flush_job j' d = Inr (d\<lparr>d_jobs := replace_by j_id j' (d_jobs d)\<rparr>)" by simp
  moreover have "j_rule_id j' \<in> r_id ` set (d_rules d)"
    using same j assms by (simp add: db_ok_def)
  ultimately show ?thesis using flush_job_db_ok[OF assms] 4(5) by simp
qed (simp_all add: assms)

lemma reconcile_apply_other:
  assumes "db_ok d" "k \<noteq> i"
  shows "get_job k (fst (reconcile_apply s u now i status d)) = get_job k d"
  by (cases rule: reconcile_apply_cases[OF assms(1), of i s u now status])
    (use assms(2) in \<open>auto simp: get_job_def find_by_replace_by_other\<close>)

lemma reconcile_apply_moved:
  assumes "db_ok d" "get_job i d = Some j" "j_status j = ACCEPTED"
    and "delivery_transition s u now status j = Inr j'"
  shows "snd (reconcile_apply s u now i status d) = Inr ()"
    and "get_job i (fst (reconcile_apply s u now i status d)) = Some j'"
proof -
  have "j \<in> set (d_jobs d)" "j_id j = i" using get_job_SomeD[OF assms(2)] by auto
  then have "get_job i (d\<lparr>d_jobs := replace_by j_id j' (d_jobs d)\<rparr>) = Some j'" if "j_id j' = i"
    using that by (auto simp: get_job_def intro!: find_by_replace_by_same)
  with assms show "snd (reconcile_apply s u now i status d) = Inr ()"
    "get_job i (fst (reconcile_apply s u now i status d)) = Some j'"
    by (cases rule: reconcile_apply_cases[OF assms(1), of i s u now status]; simp)+
qed

lemma delivery_transition_delivered:
  "delivery_transition s u now status j = Inr j' \<Longrightarrow> j_status j' = DELIVERED \<Longrightarrow>
   j_status j = ACCEPTED \<Longrightarrow> status = JStr ''delivered''"
  by (auto simp: delivery_transition_def Let_def dest!: schedule_retryD give_upD
      split: if_splits sum.splits)

lemma delivery_transition_not_failed:
  "status \<noteq> JStr ''failed'' \<Longrightarrow> \<exists>j'. delivery_transition s u now status j = Inr j'
     \<and> (status = JStr ''delivered'' \<longrightarrow> j_status j' = DELIVERED)
     \<and> (status \<noteq> JStr ''delivered'' \<longrightarrow> j_status j' = j_status j)"
  by (auto simp: delivery_transition_def Let_def)

text \<open>
  One delivery check touches at most its own job, and that job only while it is
  \<open>accepted\<close>: then it makes the transition of the state machine that the reported status
  calls for, or (when the new state cannot be computed) the transaction is rolled back.
\<close>

theorem reconcile_apply_guarded:
  assumes "db_ok d" and "get_job i d = Some j"
  shows "(\<forall>k. k \<noteq> i \<longrightarrow> get_job k (fst (reconcile_apply s u now i status d)) = get_job k d)
     \<and> (j_status j \<noteq> ACCEPTED \<longrightarrow> reconcile_apply s u now i status d = (d, Inr ()))
     \<and> (j_status j = ACCEPTED \<longrightarrow>
          (\<exists>e. reconcile_apply s u now i status d = (d, Inl e))
          \<or> (\<exists>j'. get_job i (fst (reconcile_apply s u now i status d)) = Some j'
               \<and> step_of s (abs_job j) (delivery_label status) (abs_job j') \<and> same_identity j j'))"
proof (cases rule: reconcile_apply_cases[OF assms(1), of i s u now status])
  case (4 j1 j')
  then have j: "j1 = j" using assms(2) by simp
  have st: "j_status j = ACCEPTED" using 4(2) j by simp
  from reconcile_apply_moved[OF assms st 4(3)[unfolded j]]
    delivery_transition_step[OF 4(3)[unfolded j] st] st
    reconcile_apply_other[OF assms(1), of _ i s u now status]
  show ?thesis by blast
qed (use assms(2) in auto)

theorem reconcile_apply_guarded_witness:
  "reconcile_apply default_settings 0 20 1 (JStr ''delivered'') sending_db = (sending_db, Inr ())"
proof -
  have ok: "db_ok sending_db" "get_job 1 sending_db = Some sending_job"
    by (simp_all add: sending_db_def sending_job_def db1_def db_ok_def empty_db_def
        uq_dm_jobs_rule_user_def uq_events_event_id_def unique_index_def get_job_def find_by_def
        rule1_def)
  from reconcile_apply_guarded[OF ok, of default_settings 0 20 "JStr ''delivered''"] sending_db_in(2)
  show ?thesis by simp
qed

section \<open>One cycle\<close>

lemma get_dm_status_ok:
  "get_dm_status s get w dm = (w', Inr r) \<Longrightarrow> st_outcome r = ST_OK \<Longrightarrow> st_status r = st \<Longrightarrow>
   \<exists>h. get w dm = (w', Response h) \<and> hr_status_code h < 400 \<and> dict_get (safe_json h) ''status'' = st"
  by (auto simp: get_dm_status_def classify_status_def Let_def split: if_splits http_reply.splits
      prod.splits)

lemma reconcile_apply_delivered:
  assumes "db_ok d" "get_job i d = Some j" "j_status j \<noteq> DELIVERED"
    and "get_job i (fst (reconcile_apply s u now i st d)) = Some j'" "j_status j' = DELIVERED"
  shows "st = JStr ''delivered''"
proof (cases rule: reconcile_apply_cases[OF assms(1), of i s u now st])
  case (4 j1 k)
  then have j: "j1 = j" using assms(2) by simp
  have acc: "j_status j = ACCEPTED" using 4(2) j by simp
  from reconcile_apply_moved(2)[OF assms(1,2) acc 4(3)[unfolded j]] assms(4) have "k = j'" by simp
  with delivery_transition_delivered[OF 4(3)[unfolded j] _ acc] assms(5) show ?thesis by simp
qed (use assms in auto)

lemma reconcile_apply_raised:
  "snd (reconcile_apply s u now i status d) = Inl e \<Longrightarrow> fst (reconcile_apply s u now i status d) = d"
  unfolding reconcile_apply_def by (rule session_scope_rollback)

text \<open>What one turn of the loop does.\<close>

lemma reconcile_loop_turn:
  obtains (stop) w' d' e where "reconcile_loop s get u now env ((k, dm) # ps) n w d = ((w', d'), Inl e)"
      "d' = env k d"
    | (skip) w' where "reconcile_loop s get u now env ((k, dm) # ps) n w d
         = reconcile_loop s get u now env ps (n + 1) w' (env k d)"
    | (applied) w' h st where "get w dm = (w', Response h)" "hr_status_code h < 400"
      "st = dict_get (safe_json h) ''status''"
      "reconcile_loop s get u now env ((k, dm) # ps) n w d
         = reconcile_loop s get u now env ps (n + 1) w'
             (fst (reconcile_apply s (u k) (now k) k st (env k d)))"
proof (cases "get_dm_status s get w dm")
  case (Pair w' r)
  show ?thesis
  proof (cases r)
    case (Inl e)
    then show ?thesis by (intro stop[of w' "env k d" e]) (simp_all add: Pair Let_def)
  next
    case r: (Inr r')
    obtain d2 x where a: "reconcile_apply s (u k) (now k) k (st_status r') (env k d) = (d2, x)"
      by (cases "reconcile_apply s (u k) (now k) k (st_status r') (env k d)")
    show ?thesis
    proof (cases "st_outcome r'")
      case ST_OK
      show ?thesis
      proof (cases x)
        case (Inl e)
        then have "d2 = env k d"
          using reconcile_apply_raised[of s "u k" "now k" k "st_status r'" "env k d" e] a by simp
        with Inl ST_OK a show ?thesis
          by (intro stop[of w' "env k d" e]) (simp_all add: Pair r Let_def)
      next
        case (Inr y)
        from get_dm_status_ok[OF _ ST_OK refl, of s get w dm w'] Pair r obtain h where
          "get w dm = (w', Response h)" "hr_status_code h < 400"
          "dict_get (safe_json h) ''status'' = st_status r'" by auto
        with Inr ST_OK a show ?thesis
          by (intro applied[of w' h "st_status r'"]) (simp_all add: Pair r Let_def)
      qed
    qed (intro skip[of w'], simp add: Pair r Let_def)+
  qed
qed

lemma reconcile_loop_db_ok [inv_intros]:
  assumes "\<And>i d. db_ok d \<Longrightarrow> db_ok (env i d)" "db_ok d"
  shows "db_ok (snd (fst (reconcile_loop s get u now env ps n w d)))"
  using assms(2)
proof (induction ps arbitrary: n w d)
  case (Cons p ps)
  obtain k dm where p: "p = (k, dm)" by (cases p)
  show ?case
    by (cases rule: reconcile_loop_turn[of s get u now env k dm ps n w d])
      (use Cons assms(1) reconcile_apply_db_ok in \<open>auto simp only: p fst_conv snd_conv\<close>)
qed simp

lemma reconcile_loop_other:
  assumes "db_ok d" "i \<notin> fst ` set ps"
  shows "get_job i (snd (fst (reconcile_loop s get u now (\<lambda>_ x. x) ps n w d))) = get_job i d"
  using assms
proof (induction ps arbitrary: n w d)
  case (Cons p ps)
  obtain k dm where p: "p = (k, dm)" by (cases p)
  have k: "i \<noteq> k" "i \<notin> fst ` set ps" using Cons.prems(2) p by auto
  show ?case
  proof (cases rule: reconcile_loop_turn[of s get u now "\<lambda>_ x. x" k dm ps n w d])
    case (applied w' h st)
    from Cons.IH[OF reconcile_apply_db_ok[OF Cons.prems(1)] k(2)] reconcile_apply_other[OF Cons.prems(1) k(1)]
    show ?thesis unfolding p applied(4) by simp
  qed (use Cons k in \<open>simp_all add: p\<close>)
qed simp

text \<open>The provider answered \<open>delivered\<close> for a message, in some state of the world.\<close>

definition reported_delivered :: "('w \<Rightarrow> string \<Rightarrow> 'w \<times> http_reply) \<Rightarrow> string \<Rightarrow> bool" where
  "reported_delivered get dm \<longleftrightarrow> (\<exists>w w' h. get w dm = (w', Response h) \<and> hr_status_code h < 400
     \<and> dict_get (safe_json h) ''status'' = JStr ''delivered'')"

lemma reconcile_loop_delivered:
  assumes "db_ok d" "distinct (map fst ps)" "get_job i d = Some j" "j_status j \<noteq> DELIVERED"
    and "get_job i (snd (fst (reconcile_loop s get u now (\<lambda>_ x. x) ps n w d))) = Some j'"
    and "j_status j' = DELIVERED"
  shows "\<exists>dm. (i, dm) \<in> set ps \<and> reported_delivered get dm"
  using assms
proof (induction ps arbitrary: n w d j)
  case (Cons p ps)
  obtain k dm where p: "p = (k, dm)" by (cases p)
  have dist: "distinct (map fst ps)" "k \<notin> fst ` set ps" using Cons.prems(2) p by auto
  show ?case
  proof (cases rule: reconcile_loop_turn[of s get u now "\<lambda>_ x. x" k dm ps n w d])
    case (stop w' d' e)
    with Cons.prems show ?thesis by (simp add: p)
  next
    case (skip w')
    from Cons.IH[OF Cons.prems(1) dist(1) Cons.prems(3,4) _ Cons.prems(6)] Cons.prems(5) skip
    show ?thesis by (force simp: p)
  next
    case (applied w' h st)
    let ?d2 = "fst (reconcile_apply s (u k) (now k) k st d)"
    have ok2: "db_ok ?d2" by (rule reconcile_apply_db_ok[OF Cons.prems(1)])
    have after: "get_job i (snd (fst (reconcile_loop s get u now (\<lambda>_ x. x) ps (n + 1) w' ?d2))) = Some j'"
      using Cons.prems(5) applied(4) by (simp only: p)
    show ?thesis
    proof (cases "i = k")
      case False
      then have "get_job i ?d2 = Some j"
        using reconcile_apply_other[OF Cons.prems(1)] Cons.prems(3) by simp
      from Cons.IH[OF ok2 dist(1) this Cons.prems(4) after Cons.prems(6)] show ?thesis
        by (force simp: p)
    next
      case True
      then have "get_job k ?d2 = Some j'"
        using reconcile_loop_other[OF ok2 dist(2), of s get u now "n + 1" w'] after True by simp
      with reconcile_apply_delivered[OF Cons.prems(1) _ Cons.prems(4)] Cons.prems(3,6) True
      have "st = JStr ''delivered''" by blast
      with applied True show ?thesis by (auto simp: p reported_delivered_def)
    qed
  qed
qed simp

lemma load_pending_facts:
  assumes "db_ok d"
  shows "distinct (map fst (load_pending n d))"
    and "\<forall>p \<in> set (load_pending n d). \<exists>j. get_job (fst p) d = Some j \<and> pollable j
           \<and> j_dm_id j = Some (snd p)"
    and "count_where pollable (d_jobs d) \<le> n \<Longrightarrow> j \<in> set (d_jobs d) \<Longrightarrow> pollable j \<Longrightarrow>
           (j_id j, the (j_dm_id j)) \<in> set (load_pending n d)"
    and "length (load_pending n d) = min n (count_where pollable (d_jobs d))"
proof -
  let ?js = "sort_key j_updated_at (filter pollable (d_jobs d))"
  have "distinct (map j_id (filter pollable (d_jobs d)))"
    using assms by (simp add: db_ok_def distinct_map_filter)
  then have "distinct (map j_id ?js)" by (simp add: distinct_map)
  then have "distinct (map j_id (take n ?js))" by (metis distinct_take take_map)
  then show "distinct (map fst (load_pending n d))" by (simp add: load_pending_def comp_def)
  show "\<forall>p \<in> set (load_pending n d). \<exists>j. get_job (fst p) d = Some j \<and> pollable j
           \<and> j_dm_id j = Some (snd p)"
  proof
    fix p assume "p \<in> set (load_pending n d)"
    then obtain j where j: "j \<in> set (take n ?js)" "p = (j_id j, the (j_dm_id j))"
      by (auto simp: load_pending_def)
    then have "j \<in> set (d_jobs d)" "pollable j" using in_set_takeD by fastforce+
    with j assms show "\<exists>j. get_job (fst p) d = Some j \<and> pollable j \<and> j_dm_id j = Some (snd p)"
      by (auto simp: get_job_iff pollable_def)
  qed
  show "(j_id j, the (j_dm_id j)) \<in> set (load_pending n d)"
    if "count_where pollable (d_jobs d) \<le> n" "j \<in> set (d_jobs d)" "pollable j"
    using that by (simp add: load_pending_def count_where_def image_iff) blast
  show "length (load_pending n d) = min n (count_where pollable (d_jobs d))"
    by (simp add: load_pending_def count_where_def)
qed

text \<open>
  C21: Nothing is counted as sent on the strength of an acceptance: a polling cycle turns a job
  \<open>delivered\<close> only if the job was \<open>accepted\<close> with a message id, and the server reported
  exactly that message as \<open>delivered\<close> in a response below 400.
\<close>

theorem delivered_only_if_reported:
  assumes "db_ok d" and "get_job i d = Some j" "j_status j \<noteq> DELIVERED"
    and "get_job i (snd (fst (reconcile_once s n get u now (\<lambda>_ x. x) w d))) = Some j'"
    and "j_status j' = DELIVERED"
  shows "j_status j = ACCEPTED \<and> (\<exists>dm w w' h. j_dm_id j = Some dm \<and> get w dm = (w', Response h)
     \<and> hr_status_code h < 400 \<and> dict_get (safe_json h) ''status'' = JStr ''delivered'')"
proof -
  note facts = load_pending_facts[OF assms(1), of n]
  from reconcile_loop_delivered[OF assms(1) facts(1) assms(2,3) assms(4)[unfolded reconcile_once_def]
      assms(5)] obtain dm where dm: "(i, dm) \<in> set (load_pending n d)" "reported_delivered get dm"
    by blast
  with facts(2) assms(2) have "pollable j" "j_dm_id j = Some dm" by force+
  with dm(2) show ?thesis by (auto simp: pollable_def reported_delivered_def)
qed

text \<open>A server without state that answers every GET with one status.\<close>

definition status_server :: "(string \<Rightarrow> int \<times> string) \<Rightarrow> unit \<Rightarrow> string \<Rightarrow> unit \<times> http_reply" where
  "status_server ans w dm = (w, Response \<lparr>hr_status_code = fst (ans dm), hr_retry_after = None,
     hr_json = Some (JObj [(''status'', JStr (snd (ans dm)))]), hr_text = []\<rparr>)"

definition keyed_settings :: settings where
  "keyed_settings = default_settings\<lparr>pseudogram_api_key := ''key''\<rparr>"

definition poll_example :: "int \<times> string \<Rightarrow> (unit \<times> db) \<times> nat res" where
  "poll_example ans = reconcile_once keyed_settings 50 (status_server (\<lambda>_. ans)) (\<lambda>_. 0) (\<lambda>_. 20)
     (\<lambda>_ x. x) () accepted_db"

lemma accepted_db_ok: "db_ok accepted_db" "get_job 1 accepted_db = Some accepted_job"
  by (simp_all add: accepted_db_def accepted_job_def sending_job_def db1_def db_ok_def empty_db_def
      uq_dm_jobs_rule_user_def uq_events_event_id_def unique_index_def get_job_def find_by_def
      rule1_def)

theorem delivered_only_if_reported_witness:
  "\<exists>w w' h. status_server (\<lambda>_. (200, ''delivered'')) w ''dm_1'' = (w', Response h)
     \<and> hr_status_code h < 400"
proof -
  have "case get_job 1 (snd (fst (poll_example (200, ''delivered'')))) of
      Some j' \<Rightarrow> j_status j' = DELIVERED | None \<Rightarrow> False"
    by code_simp
  then obtain j' where j': "get_job 1 (snd (fst (poll_example (200, ''delivered'')))) = Some j'"
    "j_status j' = DELIVERED" by (auto split: option.splits)
  have "j_status accepted_job \<noteq> DELIVERED" "j_dm_id accepted_job = Some ''dm_1''"
    by (simp_all add: accepted_job_def)
  with delivered_only_if_reported[OF accepted_db_ok _ j'(1)[unfolded poll_example_def] j'(2)]
  show ?thesis by auto
qed

section \<open>Progress and starvation\<close>

lemma reconcile_loop_settles:
  assumes "configured s" "db_ok d" "distinct (map fst ps)"
    and "\<forall>(i, dm) \<in> set ps. ans dm \<noteq> JStr ''failed'' \<and> (\<exists>j. get_job i d = Some j \<and> j_status j = ACCEPTED)
      \<and> (\<forall>w. \<exists>w' h. get w dm = (w', Response h) \<and> hr_status_code h < 400
               \<and> dict_get (safe_json h) ''status'' = ans dm)"
  shows "snd (reconcile_loop s get u now (\<lambda>_ x. x) ps n w d) = Inr (n + length ps)
    \<and> (\<forall>(i, dm) \<in> set ps. \<exists>j'. get_job i (snd (fst (reconcile_loop s get u now (\<lambda>_ x. x) ps n w d))) = Some j'
         \<and> j_status j' = (if ans dm = JStr ''delivered'' then DELIVERED else ACCEPTED))"
  using assms(2-4)
proof (induction ps arbitrary: n w d)
  case (Cons p ps)
  obtain k dm where p: "p = (k, dm)" by (cases p)
  have dist: "distinct (map fst ps)" "k \<notin> fst ` set ps" using Cons.prems(2) p by auto
  obtain j w' h where j: "get_job k d = Some j" "j_status j = ACCEPTED"
    and h: "get w dm = (w', Response h)" "hr_status_code h < 400"
      "dict_get (safe_json h) ''status'' = ans dm" and nf: "ans dm \<noteq> JStr ''failed''"
    using Cons.prems(3) p by fastforce
  obtain j' where j': "delivery_transition s (u k) (now k) (ans dm) j = Inr j'"
    "ans dm = JStr ''delivered'' \<longrightarrow> j_status j' = DELIVERED"
    "ans dm \<noteq> JStr ''delivered'' \<longrightarrow> j_status j' = ACCEPTED"
    using delivery_transition_not_failed[OF nf] j(2) by metis
  let ?d2 = "fst (reconcile_apply s (u k) (now k) k (ans dm) d)"
  have r: "snd (reconcile_apply s (u k) (now k) k (ans dm) d) = Inr ()" "get_job k ?d2 = Some j'"
    using reconcile_apply_moved[OF Cons.prems(1) j j'(1)] by auto
  have ok2: "db_ok ?d2" by (rule reconcile_apply_db_ok[OF Cons.prems(1)])
  have step: "reconcile_loop s get u now (\<lambda>_ x. x) (p # ps) n w d
      = reconcile_loop s get u now (\<lambda>_ x. x) ps (n + 1) w' ?d2"
    using h assms(1) r(1)
    by (simp add: p get_dm_status_def classify_status_def Let_def split_beta)
  have rest: "\<forall>(i, dm) \<in> set ps. ans dm \<noteq> JStr ''failed''
      \<and> (\<exists>j. get_job i ?d2 = Some j \<and> j_status j = ACCEPTED)
      \<and> (\<forall>w. \<exists>w' h. get w dm = (w', Response h) \<and> hr_status_code h < 400
               \<and> dict_get (safe_json h) ''status'' = ans dm)"
  proof (clarify, intro conjI)
    fix i dm' assume i: "(i, dm') \<in> set ps"
    then have "i \<noteq> k" using dist(2) by force
    then have "get_job i ?d2 = get_job i d" by (rule reconcile_apply_other[OF Cons.prems(1)])
    then show "\<exists>j. get_job i ?d2 = Some j \<and> j_status j = ACCEPTED"
      using Cons.prems(3) i by (auto dest!: bspec)
  qed (use Cons.prems(3) in \<open>auto dest!: bspec\<close>)
  have "get_job k (snd (fst (reconcile_loop s get u now (\<lambda>_ x. x) ps (n + 1) w' ?d2))) = Some j'"
    using reconcile_loop_other[OF ok2 dist(2), of s get u now "n + 1" w'] r(2) by simp
  with Cons.IH[OF ok2 dist(1) rest, of "n + 1" w'] j'(2,3) show ?case
    unfolding step by (auto simp: p)
qed simp



text \<open>
  C39: Polling starves: a job whose message the server does not know keeps its \<open>updated_at\<close>, so
  it keeps its place at the head of the batch.  If a whole batch of the oldest accepted jobs
  gets 404, no cycle changes anything ever again, and a job outside that batch is never polled,
  whatever the server would say of it.
\<close>

theorem reconciliation_starves:
  assumes "\<forall>(i, dm) \<in> set (load_pending n d). \<forall>w. \<exists>h. get w dm = (w, Response h)
             \<and> hr_status_code h = 404"
  shows "((\<lambda>(w, d). fst (reconcile_once s n get u now (\<lambda>_ x. x) w d)) ^^ m) (w, d) = (w, d)"
proof -
  have loop: "fst (reconcile_loop s get u now (\<lambda>_ x. x) ps c w d) = (w, d)"
    if "set ps \<subseteq> set (load_pending n d)" for ps c
    using that
  proof (induction ps arbitrary: c)
    case (Cons p ps)
    obtain i dm where p: "p = (i, dm)" by (cases p)
    then obtain h where "get w dm = (w, Response h)" "hr_status_code h = 404"
      using assms Cons.prems by force
    then have "\<exists>r. get_dm_status s get w dm = (w, Inr r) \<and> st_outcome r \<noteq> ST_OK"
      by (simp add: get_dm_status_def classify_status_def Let_def)
    then obtain r where "get_dm_status s get w dm = (w, Inr r)" "st_outcome r \<noteq> ST_OK" by blast
    with Cons show ?case by (cases "st_outcome r") (auto simp: p)
  qed simp
  have "fst (reconcile_once s n get u now (\<lambda>_ x. x) w d) = (w, d)"
    unfolding reconcile_once_def by (rule loop) simp
  then show ?thesis by (induction m) simp_all
qed

definition starved_db :: db where
  "starved_db = accepted_db\<lparr>d_jobs := [accepted_job,
     accepted_job\<lparr>j_id := 2, j_user_id := ''u2'', j_dm_id := Some ''dm_2'', j_updated_at := 11\<rparr>]\<rparr>"

definition forgetful_server :: "unit \<Rightarrow> string \<Rightarrow> unit \<times> http_reply" where
  "forgetful_server = status_server (\<lambda>dm. if dm = ''dm_1'' then (404, ''unknown'') else (200, ''delivered''))"

theorem reconciliation_starves_witness:
  "\<forall>m. ((\<lambda>(w, d). fst (reconcile_once keyed_settings 1 forgetful_server (\<lambda>_. 0) (\<lambda>_. 20) (\<lambda>_ x. x) w d)) ^^ m)
     ((), starved_db) = ((), starved_db)"
proof (rule allI, rule reconciliation_starves)
  have "load_pending 1 starved_db = [(1, ''dm_1'')]" by code_simp
  then show "\<forall>(i, dm) \<in> set (load_pending 1 starved_db). \<forall>w. \<exists>h. forgetful_server w dm = (w, Response h)
      \<and> hr_status_code h = 404"
    by (simp add: forgetful_server_def status_server_def)
qed

end
