(* ===== verification/DmWorker.thy ===== *)
theory DmWorker
  imports JobSpec RateLimiter Reconciliation
begin

text \<open>
  \<^verbatim>\<open>app/workers/dm_worker.py\<close>: the send worker.  One run claims a job, waits for the
  limiter, sends and applies the response.  The run is over the state of the world \<open>'w\<close>, the
  limiter and the database; the readings of the clocks, the draw of the random source and the
  point at which the task is cancelled are arguments.
\<close>

section \<open>Transactions\<close>

record claimed =
  cl_id :: nat
  cl_user_id :: string
  cl_message :: string
  cl_comment_id :: "string option"
  cl_idempotency_key :: string

definition claimed_of :: "job \<Rightarrow> claimed" where
  "claimed_of j = \<lparr>cl_id = j_id j, cl_user_id = j_user_id j, cl_message = j_message j,
     cl_comment_id = j_comment_id j, cl_idempotency_key = idempotency_key j\<rparr>"

definition dm_claim :: "time \<Rightarrow> db \<Rightarrow> db \<times> claimed option" where
  "dm_claim now d = (case claim_next_job now d of
       (d', None) \<Rightarrow> (d', None) | (d', Some j) \<Rightarrow> (d', Some (claimed_of j)))"

definition dm_apply ::
  "settings \<Rightarrow> rat \<Rightarrow> time \<Rightarrow> nat \<Rightarrow> send_result \<Rightarrow> db \<Rightarrow> db \<times> unit res" where
  "dm_apply s u now job_id result = session_scope (\<lambda>d.
     case get_job job_id d of
       None \<Rightarrow> Inr (d, ())
     | Some j \<Rightarrow> (case apply_send_result s u now result j d of
                    Inl e \<Rightarrow> Inl e | Inr d' \<Rightarrow> Inr (d', ())))"

definition release_claim :: "time \<Rightarrow> nat \<Rightarrow> db \<Rightarrow> db \<times> unit res" where
  "release_claim now job_id = session_scope (\<lambda>d.
     case get_job job_id d of
       None \<Rightarrow> Inr (d, ())
     | Some j \<Rightarrow>
         if j_status j = SENDING
         then (case flush_job (j\<lparr>j_status := QUEUED, j_updated_at := now\<rparr>) d of
                 Inl e \<Rightarrow> Inl e | Inr d' \<Rightarrow> Inr (d', ()))
         else Inr (d, ()))"

section \<open>One iteration\<close>

text \<open>
  Where the task is cancelled: waiting for the limiter, during the request (which may have
  reached the server or not), during the write of the response (whose thread runs on, before
  or after the release), or in the pause.
\<close>

datatype cancellation = NOT_CANCELLED | IN_ACQUIRE | IN_SEND bool | IN_APPLY bool | IN_PAUSE

text \<open>\<open>DONE None\<close> is \<open>True\<close> without a pause; \<open>WAITING\<close> is a run whose limiter has not
  granted yet.\<close>

datatype run_result = IDLE | DONE "pyfloat option" | CANCELLED_RUN | WAITING

record worker_input =
  wi_claim_time :: time
  wi_readings :: "(bool \<times> rat) list"
  wi_apply_time :: time
  wi_release_time :: time
  wi_draw :: rat
  wi_cancel :: cancellation

definition request_of :: "claimed \<Rightarrow> send_request" where
  "request_of c = \<lparr>rq_recipient_user_id = cl_user_id c, rq_message = cl_message c,
     rq_comment_id = cl_comment_id c, rq_idempotency_key = cl_idempotency_key c\<rparr>"

definition pause_after :: "settings \<Rightarrow> send_result \<Rightarrow> pyfloat option" where
  "pause_after s r =
     (if sr_outcome r = S_AUTH_ERROR then Some (FNum (auth_error_pause_seconds s))
      else if sr_outcome r = S_RATE_LIMITED then
        Some (penalise (case sr_retry_after r of
                None \<Rightarrow> FNum (send_rate_limit_window_seconds s) | Some x \<Rightarrow> x))
      else None)"

definition dm_run_once ::
  "settings \<Rightarrow> ('w \<Rightarrow> send_request \<Rightarrow> 'w \<times> http_reply) \<Rightarrow> worker_input
     \<Rightarrow> 'w \<times> limiter \<times> db \<Rightarrow> ('w \<times> limiter \<times> db) \<times> run_result" where
  "dm_run_once s post inp = (\<lambda>(w, l, d).
     if \<not> configured s then ((w, l, d), IDLE)
     else case dm_claim (wi_claim_time inp) d of
       (d1, None) \<Rightarrow> ((w, l, d1), IDLE)
     | (d1, Some c) \<Rightarrow>
         let release = (\<lambda>x. fst (release_claim (wi_release_time inp) (cl_id c) x));
             store = (\<lambda>r x. dm_apply s (wi_draw inp) (wi_apply_time inp) (cl_id c) r x)
         in case acquire (wi_readings inp) (l, d1) of
           ((l2, d2), granted) \<Rightarrow>
             if wi_cancel inp = IN_ACQUIRE then ((w, l2, release d2), CANCELLED_RUN)
             else case granted of
               Inl e \<Rightarrow> ((w, l2, release d2), DONE None)
             | Inr None \<Rightarrow> ((w, l2, d2), WAITING)
             | Inr (Some t) \<Rightarrow>
                 (case wi_cancel inp of
                    IN_SEND reached \<Rightarrow>
                      ((if reached then fst (post w (request_of c)) else w, l2, release d2),
                       CANCELLED_RUN)
                  | _ \<Rightarrow>
                      (case send_dm s post w (request_of c) of
                         (w2, Inl e) \<Rightarrow> ((w2, l2, release d2), DONE None)
                       | (w2, Inr r) \<Rightarrow>
                           (case wi_cancel inp of
                              IN_APPLY True \<Rightarrow> ((w2, l2, fst (store r (release d2))), CANCELLED_RUN)
                            | IN_APPLY False \<Rightarrow> ((w2, l2, release (fst (store r d2))), CANCELLED_RUN)
                            | _ \<Rightarrow>
                                (case store r d2 of
                                   (d3, Inl e) \<Rightarrow> ((w2, l2, release d3), DONE None)
                                 | (d3, Inr _) \<Rightarrow>
                                     if wi_cancel inp = IN_PAUSE \<and> pause_after s r \<noteq> None
                                     then ((w2, l2, release d3), CANCELLED_RUN)
                                     else ((w2, l2, d3), DONE (pause_after s r)))))))"

section \<open>Facts about the transactions\<close>

lemma dm_claim_frame: "dm_claim now d = (fst (claim_next_job now d),
    map_option claimed_of (snd (claim_next_job now d)))"
  by (auto simp: dm_claim_def split: prod.splits option.splits)

lemma send_transition_identity:
  "send_transition s u now r j = Inr j' \<Longrightarrow> j_id j' = j_id j \<and> j_rule_id j' = j_rule_id j
     \<and> slot j' = slot j \<and> j_status j' \<in> {ACCEPTED, RETRY_WAIT, FAILED}"
  by (auto simp: send_transition_def handle_transient_failure_def Let_def slot_def
      simp del: of_nat_Suc of_nat_add
      dest!: schedule_retryD give_upD split: if_splits sum.splits)

lemma send_transition_any_status:
  "send_transition s u now r j = Inr j' \<Longrightarrow>
   send_transition s u now r (j\<lparr>j_status := st, j_updated_at := t\<rparr>) = Inr j'"
  by (auto simp: send_transition_def handle_transient_failure_def Let_def schedule_retry_def
      give_up_def simp del: of_nat_Suc of_nat_add split: if_splits sum.splits)

lemma dm_apply_cases:
  obtains (absent) "get_job i d = None" "dm_apply s u now i r d = (d, Inr ())"
    | (raised) j e where "get_job i d = Some j" "dm_apply s u now i r d = (d, Inl e)"
      "apply_send_result s u now r j d = Inl e"
    | (moved) j j' where "get_job i d = Some j" "send_transition s u now r j = Inr j'" "j_id j' = i"
      "flush_job j' d = Inr (d\<lparr>d_jobs := replace_by j_id j' (d_jobs d)\<rparr>)"
      "dm_apply s u now i r d = (d\<lparr>d_jobs := replace_by j_id j' (d_jobs d)\<rparr>, Inr ())"
proof (cases "get_job i d")
  case None
  then show ?thesis by (rule absent) (simp add: dm_apply_def session_scope_def None)
next
  case (Some j)
  show ?thesis
  proof (cases "apply_send_result s u now r j d")
    case (Inl e)
    with Some show ?thesis by (intro raised[of j e]) (simp_all add: dm_apply_def session_scope_def)
  next
    case (Inr d')
    then obtain j' where j': "send_transition s u now r j = Inr j'" "flush_job j' d = Inr d'"
      by (auto simp: apply_send_result_def split: sum.splits)
    then have "d' = d\<lparr>d_jobs := replace_by j_id j' (d_jobs d)\<rparr>"
      by (auto simp: flush_job_def split: if_splits)
    with Some Inr j' get_job_SomeD[OF Some] send_transition_identity[OF j'(1)] show ?thesis
      by (intro moved[of j j']) (simp_all add: dm_apply_def session_scope_def)
  qed
qed

lemma dm_apply_db_ok [inv_intros]:
  assumes "db_ok d" shows "db_ok (fst (dm_apply s u now i r d))"
proof (cases rule: dm_apply_cases[of i d s u now r])
  case (moved j j')
  have "j_rule_id j' \<in> r_id ` set (d_rules d)"
    using get_job_SomeD[OF moved(1)] send_transition_identity[OF moved(2)] assms
    by (simp add: db_ok_def)
  with flush_job_db_ok[OF assms moved(4)] moved(5) show ?thesis by simp
qed (simp_all add: assms)

lemma release_claim_cases:
  assumes "db_ok d"
  obtains (kept) "release_claim now i d = (d, Inr ())"
      "\<And>j. get_job i d = Some j \<Longrightarrow> j_status j \<noteq> SENDING"
    | (released) j j' where "get_job i d = Some j" "j_status j = SENDING"
      "j' = j\<lparr>j_status := QUEUED, j_updated_at := now\<rparr>"
      "flush_job j' d = Inr (d\<lparr>d_jobs := replace_by j_id j' (d_jobs d)\<rparr>)"
      "release_claim now i d = (d\<lparr>d_jobs := replace_by j_id j' (d_jobs d)\<rparr>, Inr ())"
proof (cases "get_job i d")
  case None
  then show ?thesis by (intro kept) (simp_all add: release_claim_def session_scope_def)
next
  case (Some j)
  show ?thesis
  proof (cases "j_status j = SENDING")
    case False
    with Some show ?thesis by (intro kept) (simp_all add: release_claim_def session_scope_def)
  next
    case True
    let ?j' = "j\<lparr>j_status := QUEUED, j_updated_at := now\<rparr>"
    have "flush_job ?j' d = Inr (d\<lparr>d_jobs := replace_by j_id ?j' (d_jobs d)\<rparr>)"
      using get_job_SomeD[OF Some] True
      by (intro flush_live_job[OF assms, of j]) (simp_all add: holds_slot_def slot_def)
    with Some True show ?thesis
      by (intro released[of j ?j']) (simp_all add: release_claim_def session_scope_def)
  qed
qed

lemma release_claim_db_ok [inv_intros]:
  assumes "db_ok d" shows "db_ok (fst (release_claim now i d))"
proof (cases rule: release_claim_cases[OF assms, of now i])
  case (2 j j')
  have "j_rule_id j' \<in> r_id ` set (d_rules d)"
    using get_job_SomeD[OF 2(1)] 2(3) assms by (simp add: db_ok_def)
  with flush_job_db_ok[OF assms 2(4)] 2(5) show ?thesis by simp
qed (simp add: assms)

section \<open>What one run can do to the database\<close>

text \<open>Only job \<open>i\<close> may change, and no job changes its idempotency key.\<close>

definition touches :: "nat \<Rightarrow> db \<Rightarrow> db \<Rightarrow> bool" where
  "touches i d d' \<longleftrightarrow> db_ok d' \<and> (\<forall>k. k \<noteq> i \<longrightarrow> get_job k d' = get_job k d)
     \<and> (\<forall>k. map_option idempotency_key (get_job k d') = map_option idempotency_key (get_job k d))"

lemma touches_refl: "db_ok d \<Longrightarrow> touches i d d"
  by (simp add: touches_def)

lemma touches_trans: "touches i d d1 \<Longrightarrow> touches i d1 d2 \<Longrightarrow> touches i d d2"
  by (simp add: touches_def)

lemma touches_replace:
  assumes "db_ok d'" "d' = d\<lparr>d_jobs := replace_by j_id j' (d_jobs d)\<rparr>" "get_job i d = Some j"
    and "j_id j' = i" "j_send_cycle j' = j_send_cycle j"
  shows "touches i d d'" "get_job i d' = Some j'"
proof -
  note j = get_job_SomeD[OF assms(3)]
  have same: "get_job i d' = Some j'"
    using j assms(2,4) by (auto simp: get_job_def intro!: find_by_replace_by_same rev_image_eqI)
  moreover have "idempotency_key j' = idempotency_key j"
    using j assms(4,5) by (simp add: idempotency_key_def)
  moreover have other: "k \<noteq> i \<Longrightarrow> get_job k d' = get_job k d" for k
    using assms(2,4) by (simp add: get_job_def find_by_replace_by_other)
  moreover have "map_option idempotency_key (get_job k d') = map_option idempotency_key (get_job k d)" for k
    using calculation assms(3) by (cases "k = i") simp_all
  ultimately show "touches i d d'" "get_job i d' = Some j'" using assms(1) by (simp_all add: touches_def)
qed

lemma send_transition_cycle:
  "send_transition s u now r j = Inr j' \<Longrightarrow> j_send_cycle j' = j_send_cycle j"
  by (auto simp: send_transition_def handle_transient_failure_def Let_def
      simp del: of_nat_Suc of_nat_add
      dest!: schedule_retryD give_upD split: if_splits sum.splits)

lemma dm_apply_touches:
  assumes "db_ok d"
  shows "touches i d (fst (dm_apply s u now i r d))"
    and "get_job i (fst (dm_apply s u now i r d)) = Some j \<Longrightarrow>
         snd (dm_apply s u now i r d) = Inr () \<or> get_job i d \<noteq> Some j \<Longrightarrow> j_status j \<noteq> SENDING"
proof -
  show "touches i d (fst (dm_apply s u now i r d))"
  proof (cases rule: dm_apply_cases[of i d s u now r])
    case (moved k j')
    from touches_replace(1)[OF _ refl moved(1,3) send_transition_cycle[OF moved(2)]]
      dm_apply_db_ok[OF assms, of s u now i r] moved(5) show ?thesis by simp
  qed (use assms touches_refl in auto)
  show "j_status j \<noteq> SENDING" if "get_job i (fst (dm_apply s u now i r d)) = Some j"
    "snd (dm_apply s u now i r d) = Inr () \<or> get_job i d \<noteq> Some j"
  proof (cases rule: dm_apply_cases[of i d s u now r])
    case (moved k j')
    from touches_replace(2)[OF _ refl moved(1,3) send_transition_cycle[OF moved(2)]]
      dm_apply_db_ok[OF assms, of s u now i r] moved(5) that send_transition_identity[OF moved(2)]
    show ?thesis by auto
  qed (use that in auto)
qed

lemma release_claim_touches:
  assumes "db_ok d"
  shows "touches i d (fst (release_claim now i d))"
    and "get_job i (fst (release_claim now i d)) = Some j \<Longrightarrow> j_status j \<noteq> SENDING"
proof -
  show "touches i d (fst (release_claim now i d))"
  proof (cases rule: release_claim_cases[OF assms, of now i])
    case (2 k j')
    have "j_id j' = i" "j_send_cycle j' = j_send_cycle k"
      using 2(3) get_job_SomeD[OF 2(1)] by simp_all
    from touches_replace(1)[OF _ refl 2(1) this] release_claim_db_ok[OF assms, of now i] 2(5)
    show ?thesis by simp
  qed (use assms touches_refl in auto)
  show "j_status j \<noteq> SENDING" if "get_job i (fst (release_claim now i d)) = Some j"
  proof (cases rule: release_claim_cases[OF assms, of now i])
    case (2 k j')
    have "j_id j' = i" "j_send_cycle j' = j_send_cycle k"
      using 2(3) get_job_SomeD[OF 2(1)] by simp_all
    from touches_replace(2)[OF _ refl 2(1) this] release_claim_db_ok[OF assms, of now i] 2(5) that
    have "j = j'" by simp
    then show ?thesis using 2(3) by simp
  qed (use that in auto)
qed

lemma acquire_frame:
  "d_jobs (snd (fst (acquire cs (l, d)))) = d_jobs d"
  "d_rules (snd (fst (acquire cs (l, d)))) = d_rules d"
  "db_ok d \<Longrightarrow> db_ok (snd (fst (acquire cs (l, d))))"
proof -
  have rec: "d_jobs (persist ok t m d) = d_jobs d" "d_rules (persist ok t m d) = d_rules d"
    "db_ok d \<Longrightarrow> db_ok (persist ok t m d)" for ok t m
    by (auto simp: persist_def record_attempt_def db_ok_def uq_dm_jobs_rule_user_def
        uq_events_event_id_def)
  have "d_jobs (snd (fst (acquire cs (l, d)))) = d_jobs d
      \<and> d_rules (snd (fst (acquire cs (l, d)))) = d_rules d
      \<and> (db_ok d \<longrightarrow> db_ok (snd (fst (acquire cs (l, d)))))"
  proof (induction cs arbitrary: l)
    case (Cons c cs)
    obtain ok now where c: "c = (ok, now)" by (cases c)
    show ?case
      by (cases rule: acquire_once_cases[of now l ok d]) (auto simp: c rec Cons)
  qed simp
  then show "d_jobs (snd (fst (acquire cs (l, d)))) = d_jobs d"
    "d_rules (snd (fst (acquire cs (l, d)))) = d_rules d"
    "db_ok d \<Longrightarrow> db_ok (snd (fst (acquire cs (l, d))))" by auto
qed

lemma acquire_touches:
  "db_ok d \<Longrightarrow> touches i d (snd (fst (acquire cs (l, d))))"
  by (simp add: touches_def get_job_def acquire_frame)

lemma dm_claim_someE:
  assumes "db_ok d" "dm_claim now d = (d1, Some c)"
  obtains j where "j \<in> set (d_jobs d)" "runnable now j" "c = claimed_of j" "cl_id c = j_id j"
    "touches (j_id j) d d1" "get_job (j_id j) d1 = Some (j\<lparr>j_status := SENDING, j_updated_at := now\<rparr>)"
proof -
  obtain k where k: "claim_next_job now d = (d1, Some k)" "c = claimed_of k"
    using assms(2) by (auto simp: dm_claim_def split: prod.splits option.splits)
  from claim_next_job_step[OF assms(1), of now] k(1) obtain j where
    j: "j \<in> set (d_jobs d)" "runnable now j" "k = j\<lparr>j_status := SENDING, j_updated_at := now\<rparr>"
      "d1 = d\<lparr>d_jobs := replace_by j_id k (d_jobs d)\<rparr>" by auto
  have "get_job (j_id j) d = Some j" using j(1) assms(1) by (simp add: get_job_iff)
  from touches_replace[OF _ j(4) this] claim_next_job_db_ok[OF assms(1), of now] k(1) j(3)
  have "touches (j_id j) d d1" "get_job (j_id j) d1 = Some k" by simp_all
  with j k show ?thesis
    by (intro that[of j]) (simp_all add: claimed_of_def idempotency_key_def)
qed

lemma dm_claim_none:
  assumes "db_ok d" "dm_claim now d = (d1, None)" shows "d1 = d"
  using assms claim_from_None[of "candidate_ids now d" now d]
  by (auto simp: dm_claim_frame claim_next_job_def)

text \<open>The ends a run can have: the request it made, and what it wrote after the grant.\<close>

lemma dm_run_once_ends:
  assumes run: "dm_run_once s post inp (w, l, d) = ((w', l', d'), res)"
    and claim: "dm_claim (wi_claim_time inp) d = (d1, Some c)" and conf: "configured s"
    and acq: "acquire (wi_readings inp) (l, d1) = ((l2, d2), g)"
  defines "rel \<equiv> \<lambda>x. fst (release_claim (wi_release_time inp) (cl_id c) x)"
    and "sto \<equiv> \<lambda>r x. dm_apply s (wi_draw inp) (wi_apply_time inp) (cl_id c) r x"
  shows "l' = l2
    \<and> (w' = w \<or> (\<exists>t. g = Inr (Some t)) \<and> w' = fst (post w (request_of c)))
    \<and> (res = WAITING \<and> d' = d2 \<or> d' = rel d2
       \<or> (\<exists>r. snd (send_dm s post w (request_of c)) = Inr r \<and>
            (d' = fst (sto r d2) \<and> snd (sto r d2) = Inr () \<or> d' = rel (fst (sto r d2))
             \<or> d' = fst (sto r (rel d2)))))"
proof -
  have post: "fst (send_dm s post w (request_of c)) = fst (post w (request_of c))"
    using conf by (auto simp: send_dm_def split: prod.splits http_reply.splits)
  obtain w2 x where send: "send_dm s post w (request_of c) = (w2, x)"
    by (cases "send_dm s post w (request_of c)")
  have R: "fst (release_claim (wi_release_time inp) (cl_id c) y) = rel y"
    and S: "dm_apply s (wi_draw inp) (wi_apply_time inp) (cl_id c) r y = sto r y" for r y
    by (simp_all add: rel_def sto_def)
  note body = run[unfolded dm_run_once_def split_conv claim Let_def acq option.case prod.case R S]
  show ?thesis
  proof (cases g)
    case (Inl e)
    then show ?thesis using body conf by (auto split: if_splits)
  next
    case gr: (Inr o')
    show ?thesis
    proof (cases o')
      case None
      then show ?thesis using body conf gr by (auto split: if_splits)
    next
      case o: (Some t)
      show ?thesis
      proof (cases x)
        case (Inl e)
        then show ?thesis
          using body conf gr o send post by (cases "wi_cancel inp") (auto split: if_splits)
      next
        case x: (Inr r)
        obtain d3 y where st: "sto r d2 = (d3, y)" by (cases "sto r d2")
        show ?thesis
        proof (cases "wi_cancel inp")
          case (IN_APPLY b)
          then show ?thesis using body conf gr o send post x by (cases b) auto
        qed (use body conf gr o send post x st in
              \<open>cases y; auto split: if_splits\<close>)+
      qed
    qed
  qed
qed

lemma dm_run_once_idle:
  assumes "dm_run_once s post inp (w, l, d) = ((w', l', d'), res)" "db_ok d"
    and "\<not> configured s \<or> snd (dm_claim (wi_claim_time inp) d) = None"
  shows "w' = w \<and> l' = l \<and> d' = d \<and> res = IDLE"
  using assms dm_claim_none[OF assms(2)]
  by (cases "dm_claim (wi_claim_time inp) d") (auto simp: dm_run_once_def split: if_splits)

lemma dm_run_once_strands_nothing:
  assumes "db_ok d" and "dm_run_once s post inp (w, l, d) = ((w', l', d'), res)"
  shows "(res \<noteq> WAITING \<longrightarrow> (\<forall>k j. get_job k d' = Some j \<and> j_status j = SENDING \<longrightarrow> get_job k d = Some j))
     \<and> (\<exists>i. \<forall>k. k \<noteq> i \<longrightarrow> get_job k d' = get_job k d)
     \<and> (\<forall>k. map_option idempotency_key (get_job k d') = map_option idempotency_key (get_job k d))"
proof (cases "\<not> configured s \<or> snd (dm_claim (wi_claim_time inp) d) = None")
  case True
  with dm_run_once_idle[OF assms(2,1)] show ?thesis by simp
next
  case False
  then obtain d1 c where c: "dm_claim (wi_claim_time inp) d = (d1, Some c)"
    by (metis option.exhaust prod.collapse)
  obtain l2 d2 g where acq: "acquire (wi_readings inp) (l, d1) = ((l2, d2), g)"
    by (metis prod.collapse)
  let ?i = "cl_id c"
  let ?rel = "\<lambda>x. fst (release_claim (wi_release_time inp) ?i x)"
  let ?sto = "\<lambda>r x. dm_apply s (wi_draw inp) (wi_apply_time inp) ?i r x"
  have t1: "touches ?i d d1" using dm_claim_someE[OF assms(1) c] by metis
  then have ok1: "db_ok d1" by (simp add: touches_def)
  have t2: "touches ?i d d2" using touches_trans[OF t1] acquire_touches[OF ok1, of ?i "wi_readings inp" l] acq by simp
  then have ok2: "db_ok d2" by (simp add: touches_def)
  note rel = release_claim_touches[of _ ?i "wi_release_time inp"]
  note sto = dm_apply_touches[of _ ?i s "wi_draw inp" "wi_apply_time inp"]
  have ok3: "db_ok (fst (?sto r d2))" "db_ok (?rel d2)" for r
    using sto(1)[OF ok2] rel(1)[OF ok2] by (auto simp: touches_def)
  have R: "touches ?i d2 (?rel d2)" "\<And>j. get_job ?i (?rel d2) = Some j \<Longrightarrow> j_status j \<noteq> SENDING"
    using rel[OF ok2] by auto
  have S: "touches ?i d2 (fst (?sto r d2))"
    "\<And>j. snd (?sto r d2) = Inr () \<Longrightarrow> get_job ?i (fst (?sto r d2)) = Some j \<Longrightarrow> j_status j \<noteq> SENDING" for r
    using sto[OF ok2] by auto
  have SR: "touches ?i d2 (?rel (fst (?sto r d2)))"
    "\<And>j. get_job ?i (?rel (fst (?sto r d2))) = Some j \<Longrightarrow> j_status j \<noteq> SENDING" for r
    using touches_trans[OF S(1) rel(1)[OF ok3(1)]] rel(2)[OF ok3(1)] by blast+
  have RS: "touches ?i d2 (fst (?sto r (?rel d2)))" for r
    by (rule touches_trans[OF R(1) sto(1)[OF ok3(2)]])
  have RS': "j_status j \<noteq> SENDING" if "get_job ?i (fst (?sto r (?rel d2))) = Some j" for r j
    using sto(2)[OF ok3(2) that] R(2) by blast
  have fin: "touches ?i d2 d' \<and> (res \<noteq> WAITING \<longrightarrow> (\<forall>j. get_job ?i d' = Some j \<longrightarrow> j_status j \<noteq> SENDING))"
    using dm_run_once_ends[OF assms(2) c _ acq, THEN conjunct2, THEN conjunct2] False
      R S SR RS RS' touches_refl[OF ok2] by blast
  have all: "touches ?i d d'" using touches_trans[OF t2] fin by blast
  have "get_job k d = Some j" if "res \<noteq> WAITING" "get_job k d' = Some j" "j_status j = SENDING" for k j
  proof (cases "k = ?i")
    case True
    with that fin show ?thesis by blast
  next
    case False
    then have "get_job k d' = get_job k d" using all unfolding touches_def by blast
    with that show ?thesis by simp
  qed
  with all show ?thesis unfolding touches_def by blast
qed


definition plain_input :: worker_input where
  "plain_input = \<lparr>wi_claim_time = 7, wi_readings = [(True, 100)], wi_apply_time = 8,
     wi_release_time = 9, wi_draw = 0, wi_cancel = NOT_CANCELLED\<rparr>"

text \<open>A server whose world is the list of the requests it got, newest first.\<close>

definition logging_server ::
  "(send_request \<Rightarrow> http_reply) \<Rightarrow> send_request list \<Rightarrow> send_request \<Rightarrow> send_request list \<times> http_reply" where
  "logging_server ans = (\<lambda>rqs rq. (rq # rqs, ans rq))"


text \<open>
  No message leaves without a slot.  A run makes at most one send request, only after the
  limiter has granted it a slot at one of the clock readings of this run, and the request is
  that of a job that was runnable when it was claimed: its user, its message, its comment and
  its idempotency key.
\<close>

theorem no_send_without_grant:
  assumes "db_ok d"
    and "dm_run_once s (logging_server ans) inp (rqs, l, d) = ((rqs', l', d'), res)"
  shows "rqs' = rqs \<or>
     (\<exists>j t. j \<in> set (d_jobs d) \<and> runnable (wi_claim_time inp) j \<and> configured s
        \<and> rqs' = \<lparr>rq_recipient_user_id = j_user_id j, rq_message = j_message j,
                  rq_comment_id = j_comment_id j, rq_idempotency_key = idempotency_key j\<rparr> # rqs
        \<and> t \<in> snd ` set (wi_readings inp)
        \<and> snd (acquire (wi_readings inp) (l, fst (dm_claim (wi_claim_time inp) d))) = Inr (Some t))"
proof (cases "\<not> configured s \<or> snd (dm_claim (wi_claim_time inp) d) = None")
  case True
  with dm_run_once_idle[OF assms(2,1)] show ?thesis by simp
next
  case False
  then obtain d1 c where c: "dm_claim (wi_claim_time inp) d = (d1, Some c)"
    by (metis option.exhaust prod.collapse)
  obtain l2 d2 g where acq: "acquire (wi_readings inp) (l, d1) = ((l2, d2), g)"
    by (metis prod.collapse)
  obtain j where j: "j \<in> set (d_jobs d)" "runnable (wi_claim_time inp) j" "c = claimed_of j"
    using dm_claim_someE[OF assms(1) c] by metis
  have "fst (logging_server ans rqs (request_of c)) = request_of c # rqs"
    by (simp add: logging_server_def)
  with dm_run_once_ends[OF assms(2) c _ acq] False
  have "rqs' = rqs \<or> (\<exists>t. g = Inr (Some t)) \<and> rqs' = request_of c # rqs" by auto
  moreover have "t \<in> snd ` set (wi_readings inp)" if "g = Inr (Some t)" for t
    using acquire_reading[of "wi_readings inp" "(l, d1)" t] acq that by simp
  ultimately show ?thesis
    using j False c acq by (auto simp: request_of_def claimed_of_def)
qed

theorem no_send_without_grant_witness:
  "length (fst (fst (dm_run_once keyed_settings (logging_server (\<lambda>_. OtherException)) plain_input
     ([], new_limiter 10 60 0 True, db2)))) = 1
   \<and> (\<exists>j. fst (fst (dm_run_once keyed_settings (logging_server (\<lambda>_. OtherException)) plain_input
     ([], new_limiter 10 60 0 True, db2))) = [\<lparr>rq_recipient_user_id = j_user_id j, rq_message = j_message j,
         rq_comment_id = j_comment_id j, rq_idempotency_key = idempotency_key j\<rparr>]
       \<and> j \<in> set (d_jobs db2))"
proof -
  let ?run = "dm_run_once keyed_settings (logging_server (\<lambda>_. OtherException)) plain_input
     ([], new_limiter 10 60 0 True, db2)"
  obtain w l d r where run: "?run = ((w, l, d), r)" by (metis prod.collapse)
  have len: "length (fst (fst ?run)) = 1" by code_simp
  then have "w \<noteq> []" using run by auto
  with no_send_without_grant[OF db2_ok run] run len show ?thesis by auto
qed

text \<open>
  Cancelling the task while the response is being written loses nothing: the thread that
  writes runs on, and whether the release of the claim comes before or after it, the database
  ends the same, with the response applied.
\<close>

theorem cancellation_race_harmless:
  assumes "db_ok d" and "get_job i d = Some j" "j_status j = SENDING"
    and "snd (dm_apply s u now i r d) = Inr ()"
  shows "fst (dm_apply s u now i r (fst (release_claim t i d)))
           = fst (release_claim t i (fst (dm_apply s u now i r d)))
     \<and> fst (dm_apply s u now i r (fst (release_claim t i d))) = fst (dm_apply s u now i r d)"
proof -
  obtain j' where m: "send_transition s u now r j = Inr j'" "j_id j' = i"
    "flush_job j' d = Inr (d\<lparr>d_jobs := replace_by j_id j' (d_jobs d)\<rparr>)"
    "dm_apply s u now i r d = (d\<lparr>d_jobs := replace_by j_id j' (d_jobs d)\<rparr>, Inr ())"
    by (cases rule: dm_apply_cases[of i d s u now r]) (use assms in auto)
  note same = send_transition_identity[OF m(1)] and jd = get_job_SomeD[OF assms(2)]
  let ?q = "j\<lparr>j_status := QUEUED, j_updated_at := t\<rparr>"
  let ?d1 = "d\<lparr>d_jobs := replace_by j_id ?q (d_jobs d)\<rparr>"
  have rel: "release_claim t i d = (?d1, Inr ())"
    by (cases rule: release_claim_cases[OF assms(1), of t i]) (use assms(2,3) in auto)
  have q: "get_job i ?d1 = Some ?q"
    using jd by (auto simp: get_job_def intro!: find_by_replace_by_same rev_image_eqI)
  have ok1: "db_ok ?d1" using release_claim_db_ok[OF assms(1), of t i] rel by simp
  have tr: "send_transition s u now r ?q = Inr j'"
    using m(1) by (rule send_transition_any_status)
  have "flush_job j' ?d1 = Inr (?d1\<lparr>d_jobs := replace_by j_id j' (d_jobs ?d1)\<rparr>)"
    using same get_job_SomeD[OF q]
    by (intro flush_live_job[OF ok1, of ?q]) (simp_all add: holds_slot_def slot_def)
  moreover have "replace_by j_id j' (replace_by j_id ?q (d_jobs d)) = replace_by j_id j' (d_jobs d)"
    using same by (intro replace_by_twice) simp
  ultimately have a: "fst (dm_apply s u now i r ?d1) = d\<lparr>d_jobs := replace_by j_id j' (d_jobs d)\<rparr>"
    using q tr by (simp add: dm_apply_def session_scope_def apply_send_result_def)
  have got: "get_job i (fst (dm_apply s u now i r d)) = Some j'"
    using m(2,4) jd by (auto simp: get_job_def intro!: find_by_replace_by_same rev_image_eqI)
  have "j_status j' \<noteq> SENDING" using same by auto
  with got have "fst (release_claim t i (fst (dm_apply s u now i r d))) = fst (dm_apply s u now i r d)"
    by (simp add: release_claim_def session_scope_def)
  with a rel m(4) show ?thesis by simp
qed

lemma sending_db_ok: "db_ok sending_db" "get_job 1 sending_db = Some sending_job"
  by (simp_all add: sending_db_def sending_job_def db1_def db_ok_def empty_db_def
      uq_dm_jobs_rule_user_def uq_events_event_id_def unique_index_def get_job_def find_by_def
      rule1_def)

theorem cancellation_race_harmless_witness:
  "fst (dm_apply default_settings 0 10 1 accepted_result (fst (release_claim 9 1 sending_db)))
     = fst (dm_apply default_settings 0 10 1 accepted_result sending_db)"
proof -
  have "snd (dm_apply default_settings 0 10 1 accepted_result sending_db) = Inr ()"
    by code_simp
  from cancellation_race_harmless[OF sending_db_ok sending_db_in(2) this] show ?thesis by blast
qed

text \<open>
  C38: Writing a response has no guard on the status of the job, unlike the delivery check.  If
  the job was cancelled between the claim and the response (its stale claim requeued, then
  its comment deleted), the response brings it back to life when its slot is still free;
  when the slot has been taken meanwhile, the write is refused and the response is lost.
\<close>

theorem response_revives_cancelled_job:
  assumes "db_ok d" and "get_job i d = Some j" "j_status j = CANCELLED"
    and "send_transition s u now r j = Inr j'"
  shows "(\<not> slot_taken (j_rule_id j) (j_user_id j) d \<longrightarrow>
            get_job i (fst (dm_apply s u now i r d)) = Some j' \<and> holds_slot j')
     \<and> (slot_taken (j_rule_id j) (j_user_id j) d \<longrightarrow>
            dm_apply s u now i r d = (d, Inl IntegrityError))"
proof -
  note same = send_transition_identity[OF assms(4)] and jd = get_job_SomeD[OF assms(2)]
  have live: "holds_slot j'" using same by (auto simp: holds_slot_def)
  have uniq: "k = j" if "k \<in> set (d_jobs d)" "j_id k = j_id j" for k
    using that jd assms(1) get_job_iff[OF assms(1)] by (metis option.inject)
  have taken: "slot_taken (j_rule_id j) (j_user_id j) d \<longleftrightarrow>
      (\<exists>k \<in> set (d_jobs d). j_id k \<noteq> j_id j' \<and> holds_slot k \<and> slot k = slot j')"
    using same uniq assms(3) by (auto simp: slot_taken_def slot_def holds_slot_def)
  have eq: "dm_apply s u now i r d = session_scope (\<lambda>d. case flush_job j' d of
      Inl e \<Rightarrow> Inl e | Inr d' \<Rightarrow> Inr (d', ())) d"
    using assms(2,4) by (simp add: dm_apply_def session_scope_def apply_send_result_def)
  have "get_job i (d\<lparr>d_jobs := replace_by j_id j' (d_jobs d)\<rparr>) = Some j'"
    using jd same by (auto simp: get_job_def intro!: find_by_replace_by_same rev_image_eqI)
  then show ?thesis
    using live taken by (auto simp: eq session_scope_def flush_job_def)
qed

theorem response_revives_cancelled_job_witness:
  "\<exists>j'. get_job 1 (fst (dm_apply default_settings 0 10 1 accepted_result
      (fst (cancel_jobs_for_comment ''c1'' 9 (fst (release_claim 8 1 sending_db)))))) = Some j'
     \<and> holds_slot j'"
proof -
  let ?d = "fst (cancel_jobs_for_comment ''c1'' 9 (fst (release_claim 8 1 sending_db)))"
  have ok: "db_ok ?d" by (intro cancel_db_ok release_claim_db_ok sending_db_ok)
  have "case get_job 1 ?d of Some j \<Rightarrow> j_status j = CANCELLED
      \<and> \<not> slot_taken (j_rule_id j) (j_user_id j) ?d
      \<and> (case send_transition default_settings 0 10 accepted_result j of Inr _ \<Rightarrow> True | Inl _ \<Rightarrow> False)
    | None \<Rightarrow> False"
    by code_simp
  then obtain j j' where "get_job 1 ?d = Some j" "j_status j = CANCELLED"
      "send_transition default_settings 0 10 accepted_result j = Inr j'"
      "\<not> slot_taken (j_rule_id j) (j_user_id j) ?d"
    by (auto split: option.splits sum.splits)
  with response_revives_cancelled_job[OF ok this(1-3)] show ?thesis by blast
qed

end
