(* ===== verification/Manager.thy ===== *)
theory Manager
  imports DmWorker Events
begin

text \<open>
  \<^verbatim>\<open>app/workers/manager.py\<close>, \<^verbatim>\<open>app/workers/event_worker.py\<close> and the start-up half of
  \<^verbatim>\<open>app/main.py\<close>: recovery after an unclean shutdown and the bodies of the loops; the
  loops themselves are in \<^verbatim>\<open>Loops\<close>.
\<close>

section \<open>Start-up\<close>

definition recover_state :: "time \<Rightarrow> db \<Rightarrow> db \<times> unit res" where
  "recover_state now = session_scope (\<lambda>d.
     let d1 = seed_counters d; d2 = fst (requeue_stuck_events d1)
     in (case requeue_stale_sending 0 now d2 of Inl e \<Rightarrow> Inl e | Inr (d3, _) \<Rightarrow> Inr (d3, ())))"

definition manager_limiter :: "settings \<Rightarrow> limiter" where
  "manager_limiter s = new_limiter (send_rate_limit_max_calls s) (send_rate_limit_window_seconds s)
     (send_rate_limit_safety_seconds s) True"

text \<open>\<open>WorkerManager.start\<close>: recovery, then the warm start of the new limiter.\<close>

definition manager_start ::
  "settings \<Rightarrow> bool \<Rightarrow> rat \<Rightarrow> rat \<Rightarrow> time \<Rightarrow> db \<Rightarrow> (limiter \<times> db) \<times> unit res" where
  "manager_start s log_ok c1 c2 now d =
     (case recover_state now d of
        (d1, Inl e) \<Rightarrow> ((manager_limiter s, d1), Inl e)
      | (d1, Inr _) \<Rightarrow> (warm_start log_ok c1 c2 (manager_limiter s, d1), Inr ()))"

text \<open>\<open>lifespan\<close>: the counters are seeded in a transaction of their own; the workers start
  only when enabled.\<close>

definition lifespan_start ::
  "settings \<Rightarrow> bool \<Rightarrow> rat \<Rightarrow> rat \<Rightarrow> time \<Rightarrow> db \<Rightarrow> (limiter option \<times> db) \<times> unit res" where
  "lifespan_start s log_ok c1 c2 now d =
     (let d1 = fst (session_scope (\<lambda>d. Inr (seed_counters d, ())) d) in
      if enable_workers s then
        (case manager_start s log_ok c1 c2 now d1 of
           ((l, d2), r) \<Rightarrow> ((Some l, d2), r))
      else ((None, d1), Inr ()))"

section \<open>Maintenance and the event batch\<close>

definition manager_requeue_stale :: "settings \<Rightarrow> time \<Rightarrow> db \<Rightarrow> db \<times> unit res" where
  "manager_requeue_stale s now = session_scope (\<lambda>d.
     case requeue_stale_sending (sending_stale_seconds s) now d of
       Inl e \<Rightarrow> Inl e | Inr (d', _) \<Rightarrow> Inr (d', ()))"

definition maintenance_interval :: "settings \<Rightarrow> rat" where
  "maintenance_interval s = max 5 (sending_stale_seconds s / 2)"

text \<open>\<open>EventWorker._process\<close>: the batch commits as it goes, so the enclosing transaction has
  nothing left to undo when the batch raises.\<close>

definition event_worker_process ::
  "(nat \<Rightarrow> event_fault) \<Rightarrow> nat \<Rightarrow> time \<Rightarrow> db \<Rightarrow> db \<times> nat res" where
  "event_worker_process faults batch_size now d = process_pending_events faults batch_size now d"

section \<open>Recovery\<close>

lemma recover_state_eq:
  assumes "in_time_range now"
  shows "\<exists>n. recover_state now d = ((fst (requeue_stuck_events (seed_counters d)))
      \<lparr>d_jobs := update_where (stale now) (\<lambda>j. j\<lparr>j_status := QUEUED, j_updated_at := now\<rparr>)
                   (d_jobs d)\<rparr>, n) \<and> n = Inr ()"
proof -
  have cut: "minus_seconds now 0 = Inr now"
    using assms by (simp add: minus_seconds_def timedelta_def round_half_even_def add_time_def)
  show ?thesis
    by (simp add: recover_state_def session_scope_def Let_def requeue_stale_sending_def cut
        requeue_stuck_events_def)
qed

lemma recover_state_db_ok [inv_intros]:
  assumes "db_ok d" shows "db_ok (fst (recover_state now d))"
proof -
  let ?d = "fst (requeue_stuck_events (seed_counters d))"
  have ok: "db_ok ?d" by (intro requeue_stuck_events_db_ok seed_counters_db_ok assms)
  show ?thesis
  proof (cases "requeue_stale_sending 0 now ?d")
    case (Inl e)
    with assms show ?thesis by (simp add: recover_state_def session_scope_def Let_def)
  next
    case (Inr x)
    with requeue_stale_db_ok[OF ok, of 0 now "fst x" "snd x"] show ?thesis
      by (cases x) (simp add: recover_state_def session_scope_def Let_def)
  qed
qed

text \<open>
  C22: Recovery at start loses nothing and leaves nothing stuck.  From any database a crash can
  leave, with a clock that reads later than the last write, \<open>recover_state\<close> succeeds; then no
  event is \<open>processing\<close> and no job \<open>sending\<close>, every event and job is still there in the same
  order, jobs keep their idempotency keys, finished work and all counter values are as they
  were, and all three counters exist.
\<close>

theorem recovery_is_complete:
  assumes "in_time_range now"
    and "\<forall>j \<in> set (d_jobs d). j_status j = SENDING \<longrightarrow> j_updated_at j < now"
  shows "\<exists>d'. recover_state now d = (d', Inr ())
     \<and> (\<forall>j \<in> set (d_jobs d'). j_status j \<noteq> SENDING)
     \<and> (\<forall>e \<in> set (d_events d'). e_status e \<noteq> PROCESSING)
     \<and> map idempotency_key (d_jobs d') = map idempotency_key (d_jobs d)
     \<and> map e_event_id (d_events d') = map e_event_id (d_events d)
     \<and> filter (\<lambda>j. j_status j \<notin> {SENDING, QUEUED}) (d_jobs d')
         = filter (\<lambda>j. j_status j \<notin> {SENDING, QUEUED}) (d_jobs d)
     \<and> (\<forall>k. get_counter k d' = get_counter k d \<and> counter_key_value k \<in> fst ` set (d_counters d'))"
proof -
  let ?f = "\<lambda>j. j\<lparr>j_status := QUEUED, j_updated_at := now\<rparr>"
  define js where "js = update_where (stale now) ?f (d_jobs d)"
  let ?d = "(fst (requeue_stuck_events (seed_counters d)))\<lparr>d_jobs := js\<rparr>"
  have rec: "recover_state now d = (?d, Inr ())"
    using recover_state_eq[OF assms(1), of d] by (auto simp: js_def)
  have eq: "js = map (\<lambda>j. if j_status j = SENDING then ?f j else j) (d_jobs d)"
    using assms(2) by (auto simp: js_def update_where_def stale_def)
  have sending: "\<forall>j \<in> set js. j_status j \<noteq> SENDING" by (auto simp: eq)
  have keys: "map idempotency_key js = map idempotency_key (d_jobs d)"
    by (simp add: eq idempotency_key_def)
  have rest: "filter (\<lambda>j. j_status j \<notin> {SENDING, QUEUED}) js
      = filter (\<lambda>j. j_status j \<notin> {SENDING, QUEUED}) (d_jobs d)"
  proof -
    have "filter (\<lambda>j. j_status j \<notin> {SENDING, QUEUED})
        (map (\<lambda>j. if j_status j = SENDING then ?f j else j) xs)
      = filter (\<lambda>j. j_status j \<notin> {SENDING, QUEUED}) xs" for xs
      by (induction xs) auto
    then show ?thesis unfolding eq .
  qed
  have events: "\<forall>e \<in> set (d_events ?d). e_status e \<noteq> PROCESSING"
    "map e_event_id (d_events ?d) = map e_event_id (d_events d)"
    by (auto simp: requeue_stuck_events_def set_update_where map_key_update_where)
  have counters: "get_counter k ?d = get_counter k d"
    "counter_key_value k \<in> fst ` set (d_counters ?d)" for k
    using seed_counters_complete[of k d] by (simp_all add: requeue_stuck_events_def)
  show ?thesis
    by (rule exI[of _ ?d]) (use rec sending keys rest events counters in auto)
qed

theorem recovery_is_complete_witness:
  "\<exists>d'. recover_state 100 (fst (dm_claim 7 db2)) = (d', Inr ())
     \<and> (\<forall>j \<in> set (d_jobs d'). j_status j \<noteq> SENDING)"
proof -
  have "in_time_range 100" by (simp add: in_time_range_def max_time_def)
  moreover have "\<forall>j \<in> set (d_jobs (fst (dm_claim 7 db2))). j_status j = SENDING \<longrightarrow> j_updated_at j < 100"
    by code_simp
  ultimately show ?thesis using recovery_is_complete by blast
qed

text \<open>
  The maintenance timer takes back abandoned claims only: a claim younger than
  \<open>sending_stale_seconds\<close> keeps its job, every older claim is requeued, with the same
  idempotency key, and no job in another state changes.
\<close>

theorem maintenance_spares_recent_claims:
  assumes "minus_seconds now (sending_stale_seconds s) = Inr cutoff" and "db_ok d"
    and "get_job i d = Some j"
  shows "get_job i (fst (manager_requeue_stale s now d)) =
     Some (if j_status j = SENDING \<and> j_updated_at j < cutoff
           then j\<lparr>j_status := QUEUED, j_updated_at := now\<rparr> else j)"
proof -
  have "fst (manager_requeue_stale s now d) = d\<lparr>d_jobs := update_where (stale cutoff)
      (\<lambda>j. j\<lparr>j_status := QUEUED, j_updated_at := now\<rparr>) (d_jobs d)\<rparr>"
    by (simp add: manager_requeue_stale_def session_scope_def requeue_stale_sending_def assms(1))
  then show ?thesis
    using assms(3) by (auto simp: get_job_def find_by_update_where stale_def)
qed

theorem maintenance_spares_recent_claims_witness:
  "get_job 1 (fst (manager_requeue_stale default_settings 200000000 sending_db))
     = Some (sending_job\<lparr>j_status := QUEUED, j_updated_at := 200000000\<rparr>)"
proof -
  have "minus_seconds 200000000 (sending_stale_seconds default_settings) = Inr 80000000"
    by code_simp
  from maintenance_spares_recent_claims[OF this sending_db_ok] show ?thesis
    by (simp add: sending_job_def new_job_def)
qed

end
