(* ===== verification/Evolution.thy ===== *)
theory Evolution
  imports Api Manager
begin

text \<open>
  What every transaction of the service may do to the table of DM jobs: no row disappears or
  changes whom it is for, every row moves along the state machine of \<^verbatim>\<open>JobSpec\<close>, and every new
  row starts at \<open>queued\<close>.  \<open>evolves s Ls\<close> is this promise for the transitions \<open>Ls\<close>; each
  operation gets one lemma that names the transitions it can make.
\<close>

section \<open>The machine with late answers\<close>

text \<open>
  The service adds one kind of step to the machine: the answer to a request may be written
  after the job was taken back (\<open>queued\<close>) or taken back and cancelled.
\<close>

inductive app_step :: "int \<Rightarrow> int \<Rightarrow> jstate \<Rightarrow> jlabel \<Rightarrow> jstate \<Rightarrow> bool"
  for M :: int and D :: int where
  planned: "job_step M D x l y \<Longrightarrow> app_step M D x l y"
| late: "st \<in> {QUEUED, CANCELLED} \<Longrightarrow> l \<noteq> L_RELEASE \<Longrightarrow> job_step M D (SENDING, a, t, c) l y
    \<Longrightarrow> app_step M D (st, a, t, c) l y"

inductive_cases sending_stepE: "job_step M D (SENDING, a, t, c) l y"

text \<open>Every step keeps the budgets, late ones too, and never lowers the send cycle.\<close>

lemma app_step_budget:
  assumes "app_step M D x l y" "1 \<le> M" "job_budget M D x"
  shows "job_budget M D y"
  using assms(1)
proof cases
  case planned
  with assms(2,3) job_step_budget show ?thesis by blast
next
  case (late st a t c)
  have "job_budget M D (SENDING, a, t, c)" using assms(3) late(1,2) by auto
  with job_step_budget[OF late(4) assms(2)] show ?thesis .
qed

lemma job_step_cycle: "job_step M D (st, a, t, c) l (st', a', t', c') \<Longrightarrow> c \<le> c'"
  by (auto elim: job_step.cases)

lemma app_step_cycle: "app_step M D (st, a, t, c) l (st', a', t', c') \<Longrightarrow> c \<le> c'"
  by (auto elim!: app_step.cases dest: job_step_cycle)

text \<open>Only what has failed or was delivered is final.\<close>

lemma app_step_final: "app_step M D (st, a, t, c) l y \<Longrightarrow> st \<notin> {DELIVERED, FAILED}"
  by (auto elim!: app_step.cases terminal_stepE)

section \<open>Paths\<close>

definition path :: "settings \<Rightarrow> jlabel set \<Rightarrow> jstate \<Rightarrow> jstate \<Rightarrow> bool" where
  "path s Ls = (\<lambda>x y. \<exists>l \<in> Ls. app_step (max_dm_attempts s) (max_delivery_attempts s) x l y)\<^sup>*\<^sup>*"

lemma path_refl [simp]: "path s Ls x x"
  by (simp add: path_def)

lemma path_step: "l \<in> Ls \<Longrightarrow> app_step (max_dm_attempts s) (max_delivery_attempts s) x l y \<Longrightarrow> path s Ls x y"
  unfolding path_def by (rule r_into_rtranclp) blast

lemma path_trans: "path s Ls x y \<Longrightarrow> path s Ls y z \<Longrightarrow> path s Ls x z"
  unfolding path_def by (rule rtranclp_trans)

lemma path_mono: "path s Ls x y \<Longrightarrow> Ls \<subseteq> Ls' \<Longrightarrow> path s Ls' x y"
  unfolding path_def by (erule rtranclp_mono[THEN predicate2D, rotated]) blast

text \<open>What a step keeps for its labels, a path keeps.\<close>

lemma path_invariant:
  assumes "path s Ls x y" "P x"
    and "\<And>l a b. l \<in> Ls \<Longrightarrow> app_step (max_dm_attempts s) (max_delivery_attempts s) a l b \<Longrightarrow> P a \<Longrightarrow> P b"
  shows "P y"
  using assms(1,2) unfolding path_def
  by (induction rule: rtranclp_induct) (use assms(3) in blast)+

lemma path_budget:
  assumes "path s Ls x y" "1 \<le> max_dm_attempts s"
    and "job_budget (max_dm_attempts s) (max_delivery_attempts s) x"
  shows "job_budget (max_dm_attempts s) (max_delivery_attempts s) y"
  by (rule path_invariant[OF assms(1)]) (use assms app_step_budget in blast)+

lemma path_cycle: "path s Ls (st, a, t, c) (st', a', t', c') \<Longrightarrow> c \<le> c'"
proof (drule path_invariant[of _ _ _ _ "\<lambda>(_, _, _, c'). c \<le> c'"])
  fix l x y assume "app_step (max_dm_attempts s) (max_delivery_attempts s) x l y"
    and "case x of (_, _, _, c') \<Rightarrow> c \<le> c'"
  then show "case y of (_, _, _, c') \<Rightarrow> c \<le> c'"
    by (cases x; cases y) (use app_step_cycle order_trans in fastforce)
qed simp_all

lemma path_final:
  assumes "path s Ls (st, a, t, c) y" "st \<in> {DELIVERED, FAILED}" shows "y = (st, a, t, c)"
  by (rule path_invariant[OF assms(1)]) (use assms(2) app_step_final in blast)+

text \<open>While only cancellation and release can happen, a claimed job keeps its key.\<close>

definition in_hand :: "job_status set" where
  "in_hand = {SENDING, QUEUED, CANCELLED}"

lemma path_in_hand:
  assumes "path s Ls (st, a, t, c) y" "st \<in> in_hand" "Ls \<inter> {L_CLAIM, L_ACCEPT, L_THROTTLE, L_TRANSIENT, L_REJECT} = {}"
  shows "fst y \<in> in_hand \<and> snd y = (a, t, c)"
proof (rule path_invariant[OF assms(1)])
  fix l x y
  assume l: "l \<in> Ls" and s: "app_step (max_dm_attempts s) (max_delivery_attempts s) x l y"
    and x: "fst x \<in> in_hand \<and> snd x = (a, t, c)"
  have l': "l \<in> {L_DELIVER, L_UNDELIVERED, L_POLL, L_RELEASE, L_CANCEL}"
    using l assms(3) by (cases l) auto
  obtain st where st: "x = (st, a, t, c)" "st \<in> in_hand" using x by (cases x) simp
  from s show "fst y \<in> in_hand \<and> snd y = (a, t, c)"
  proof cases
    case planned
    then show ?thesis using l' st by (auto simp: in_hand_def elim!: job_step.cases)
  next
    case late
    then show ?thesis using l' st by (auto elim!: sending_stepE)
  qed
qed (use assms(2) in simp)

section \<open>Databases\<close>

definition job_path :: "settings \<Rightarrow> jlabel set \<Rightarrow> job \<Rightarrow> job \<Rightarrow> bool" where
  "job_path s Ls j j' \<longleftrightarrow> same_identity j j' \<and> path s Ls (abs_job j) (abs_job j')"

definition evolves :: "settings \<Rightarrow> jlabel set \<Rightarrow> db \<Rightarrow> db \<Rightarrow> bool" where
  "evolves s Ls d d' \<longleftrightarrow> db_ok d'
     \<and> (\<forall>i j. get_job i d = Some j \<longrightarrow> (\<exists>j'. get_job i d' = Some j' \<and> job_path s Ls j j'))
     \<and> (\<forall>i j'. get_job i d = None \<longrightarrow> get_job i d' = Some j' \<longrightarrow> path s Ls (QUEUED, 0, 0, 0) (abs_job j'))"

lemma job_path_refl [simp]: "job_path s Ls j j"
  by (simp add: job_path_def same_identity_def)

lemma job_path_trans: "job_path s Ls j j' \<Longrightarrow> job_path s Ls j' j'' \<Longrightarrow> job_path s Ls j j''"
  by (auto simp: job_path_def same_identity_def intro: path_trans)

lemma job_path_mono: "job_path s Ls j j' \<Longrightarrow> Ls \<subseteq> Ls' \<Longrightarrow> job_path s Ls' j j'"
  by (auto simp: job_path_def intro: path_mono)

lemma job_path_step:
  "l \<in> Ls \<Longrightarrow> step_of s (abs_job j) l (abs_job j') \<and> same_identity j j' \<Longrightarrow> job_path s Ls j j'"
  by (auto simp: job_path_def intro!: path_step[of l] app_step.planned)

lemma evolves_db_ok: "evolves s Ls d d' \<Longrightarrow> db_ok d'"
  by (simp add: evolves_def)

lemma evolves_same:
  "db_ok d' \<Longrightarrow> d_jobs d' = d_jobs d \<Longrightarrow> evolves s Ls d d'"
  by (simp add: evolves_def get_job_def)

lemma evolves_trans:
  assumes "evolves s Ls d d'" "evolves s Ls d' d''" shows "evolves s Ls d d''"
  unfolding evolves_def
proof (intro conjI allI impI)
  show "db_ok d''" using assms(2) by (rule evolves_db_ok)
  show "\<exists>j''. get_job i d'' = Some j'' \<and> job_path s Ls j j''" if "get_job i d = Some j" for i j
    using that assms job_path_trans unfolding evolves_def by metis
  show "path s Ls (QUEUED, 0, 0, 0) (abs_job j'')"
    if new: "get_job i d = None" "get_job i d'' = Some j''" for i j''
  proof (cases "get_job i d'")
    case None
    with new(2) assms(2) show ?thesis unfolding evolves_def by blast
  next
    case (Some j')
    then have "path s Ls (QUEUED, 0, 0, 0) (abs_job j')"
      using new(1) assms(1) unfolding evolves_def by blast
    moreover have "job_path s Ls j' j''"
      using Some new(2) assms(2) unfolding evolves_def by fastforce
    ultimately show ?thesis by (auto simp: job_path_def intro: path_trans)
  qed
qed

lemma evolves_mono: "evolves s Ls d d' \<Longrightarrow> Ls \<subseteq> Ls' \<Longrightarrow> evolves s Ls' d d'"
  unfolding evolves_def by (meson job_path_mono path_mono)

text \<open>One row changes, many rows change, or one row is added.\<close>

lemma evolves_replace:
  assumes "db_ok d'" "d' = d\<lparr>d_jobs := replace_by j_id j' (d_jobs d)\<rparr>" "get_job (j_id j') d = Some j"
    and "job_path s Ls j j'"
  shows "evolves s Ls d d'"
proof -
  have "get_job i d' = (if i = j_id j' then Some j' else get_job i d)" for i
    using get_job_SomeD[OF assms(3)] assms(2)
    by (auto simp: get_job_def find_by_replace_by_other intro!: find_by_replace_by_same rev_image_eqI)
  then show ?thesis using assms(1,3,4) by (auto simp: evolves_def)
qed

lemma evolves_update:
  assumes "db_ok d'" "d_jobs d' = update_where P f (d_jobs d)" "\<And>j. j_id (f j) = j_id j"
    and "\<And>j. P j \<Longrightarrow> job_path s Ls j (f j)"
  shows "evolves s Ls d d'"
proof -
  have "get_job i d' = map_option (\<lambda>j. if P j then f j else j) (get_job i d)" for i
    using assms(2,3) by (simp add: get_job_def find_by_update_where)
  then show ?thesis using assms(1,4) by (auto simp: evolves_def)
qed

lemma evolves_append:
  assumes "db_ok d'" "d_jobs d' = d_jobs d @ [k]" "abs_job k = (QUEUED, 0, 0, 0)"
  shows "evolves s Ls d d'"
proof -
  have g: "get_job i d' = (case get_job i d of None \<Rightarrow> if j_id k = i then Some k else None | Some j \<Rightarrow> Some j)" for i
    unfolding get_job_def assms(2) find_by_append by (simp add: find_by_def split: option.split)
  show ?thesis using assms(1,3) by (auto simp: evolves_def g split: if_splits)
qed

section \<open>The operations\<close>

lemma create_rule_evolves:
  "db_ok d \<Longrightarrow> evolves s {} d (fst (create_rule i now body d))"
  by (rule evolves_same[OF create_rule_db_ok])
    (auto intro: create_rule_cases[of i now body d])

lemma receive_webhook_evolves:
  "db_ok d \<Longrightarrow> evolves s {} d (fst (receive_webhook hmac loads parse cfg storage now body hdr d))"
  by (rule evolves_same[OF receive_webhook_db_ok],
      assumption, cases rule: receive_webhook_cases[of hmac loads parse cfg storage now body hdr d])
    (auto dest: ingest_event_jobs)

lemma create_job_evolves:
  assumes "db_ok d" shows "evolves s {} d (fst (create_job r u c now d))"
proof (cases "insert_job (new_job r u c now) d")
  case (Inl e)
  then have "fst (create_job r u c now d) = increment DUPLICATES_BLOCKED 1 d"
    by (simp add: create_job_def)
  with create_job_db_ok[OF assms, of r u c now] show ?thesis by (intro evolves_same) simp_all
next
  case (Inr x)
  then have "d_jobs (fst (create_job r u c now d))
      = d_jobs d @ [(new_job r u c now)\<lparr>j_id := next_pk (map j_id (d_jobs d))\<rparr>]"
    by (auto simp: create_job_def insert_job_def Let_def split: if_splits)
  then show ?thesis
    by (rule evolves_append[OF create_job_db_ok[OF assms]]) (simp add: abs_job_def)
qed

lemma create_jobs_evolves: "db_ok d \<Longrightarrow> evolves s {} d (create_jobs rs u c now d)"
proof (induction rs arbitrary: d)
  case Nil
  then show ?case by (simp add: evolves_same)
next
  case (Cons r rs)
  have e: "evolves s {} d (fst (create_job r u c now d))"
    using Cons.prems by (rule create_job_evolves)
  from evolves_trans[OF e Cons.IH[OF evolves_db_ok[OF e]]] show ?case by simp
qed

lemma cancel_evolves:
  assumes "db_ok d" shows "evolves s {L_CANCEL} d (fst (cancel_jobs_for_comment c now d))"
proof (cases "c = []")
  case True
  with assms show ?thesis by (simp add: cancel_jobs_for_comment_def evolves_same)
next
  case False
  show ?thesis
  proof (rule evolves_update[OF cancel_db_ok[OF assms]])
    show "d_jobs (fst (cancel_jobs_for_comment c now d)) = update_where (cancellable c)
        (\<lambda>j. j\<lparr>j_status := CANCELLED, j_updated_at := now\<rparr>) (d_jobs d)"
      using False by (simp add: cancel_jobs_for_comment_def)
    show "job_path s {L_CANCEL} j (j\<lparr>j_status := CANCELLED, j_updated_at := now\<rparr>)"
      if "cancellable c j" for j
      using that by (intro job_path_step[of L_CANCEL])
        (auto simp: cancellable_def cancellable_job_statuses_def abs_job_def same_identity_def
          intro!: job_step.cancel)
  qed simp
qed

lemma process_event_evolves:
  assumes "db_ok d" shows "evolves s {L_CANCEL} d (process_event e now d)"
proof -
  have fin: "evolves s {L_CANCEL} d (finish_event e st now d')" if "evolves s {L_CANCEL} d d'" for d' st
  proof (rule evolves_trans[OF that])
    show "evolves s {L_CANCEL} d' (finish_event e st now d')"
      using finish_event_db_ok[OF evolves_db_ok[OF that], of e st now]
      by (rule evolves_same) (simp add: finish_event_def)
  qed
  have created: "evolves s {L_CANCEL} d (fst (process_comment_created e now d))"
    using assms by (auto simp: process_comment_created_def evolves_same
        intro: evolves_mono[OF create_jobs_evolves])
  have same: "evolves s {L_CANCEL} d d1" if "insert_deleted c now d = Inr d1" for c d1
    using insert_deleted_db_ok[OF assms that] that
    by (intro evolves_same) (auto simp: insert_deleted_def split: if_splits)
  have deleted: "evolves s {L_CANCEL} d (fst (process_comment_deleted e now d))"
    using assms same evolves_trans[OF same cancel_evolves[OF evolves_db_ok[OF same]]]
    by (auto simp: process_comment_deleted_def Let_def evolves_same cancel_evolves split: sum.splits)
  have none: "evolves s {L_CANCEL} d d" using assms by (simp add: evolves_same)
  show ?thesis
    unfolding process_event_def by (auto simp: split_beta intro!: fin created deleted none)
qed

lemma process_loop_evolves:
  "db_ok d \<Longrightarrow> evolves s {L_CANCEL} d (fst (process_loop faults es now h d))"
proof (induction es arbitrary: d h)
  case Nil
  then show ?case by (simp add: evolves_same)
next
  case (Cons e es)
  have p: "evolves s {L_CANCEL} d (process_event e now d)"
    using Cons.prems by (rule process_event_evolves)
  have r: "evolves s {L_CANCEL} d (release_event (e_id e) d)"
    using release_event_db_ok[OF Cons.prems] by (rule evolves_same) (simp add: release_event_def)
  show ?case
    using Cons.prems evolves_trans[OF p Cons.IH[OF evolves_db_ok[OF p]]]
      evolves_trans[OF r Cons.IH[OF evolves_db_ok[OF r]]]
    by (auto simp: evolves_same split: event_fault.splits)
qed

lemma event_batch_evolves:
  assumes "db_ok d" shows "evolves s {L_CANCEL} d (fst (process_pending_events faults limit now d))"
proof -
  have c: "evolves s {L_CANCEL} d (fst (claim_pending_events limit d))"
    by (rule evolves_same) (simp_all add: claim_pending_events_def claim_events_db_ok assms)
  from evolves_trans[OF this process_loop_evolves[OF evolves_db_ok[OF this]]] show ?thesis
    by (simp add: process_pending_events_def split_beta)
qed

lemma dm_claim_evolves:
  assumes "db_ok d" shows "evolves s {L_CLAIM} d (fst (dm_claim now d))"
proof (cases "snd (claim_next_job now d)")
  case None
  then have "fst (dm_claim now d) = d"
    using dm_claim_none[OF assms, of now] by (cases "dm_claim now d") (simp add: dm_claim_frame)
  with assms show ?thesis by (simp add: evolves_same)
next
  case (Some k)
  then have k: "claim_next_job now d = (fst (dm_claim now d), Some k)"
    by (cases "claim_next_job now d") (simp add: dm_claim_frame)
  from claim_next_job_step[OF assms, of now] k obtain j where
    j: "j \<in> set (d_jobs d)" "runnable now j" "k = j\<lparr>j_status := SENDING, j_updated_at := now\<rparr>"
      "fst (dm_claim now d) = d\<lparr>d_jobs := replace_by j_id k (d_jobs d)\<rparr>" by auto
  have ok: "db_ok (fst (dm_claim now d))"
    using claim_next_job_db_ok[OF assms, of now] by (simp add: dm_claim_frame)
  show ?thesis
  proof (rule evolves_replace[OF ok j(4)])
    show "get_job (j_id k) d = Some j" using j(1,3) assms by (simp add: get_job_iff)
    show "job_path s {L_CLAIM} j k"
      using j(2,3) by (intro job_path_step[of L_CLAIM])
        (auto simp: runnable_def abs_job_def same_identity_def intro!: job_step.claim)
  qed
qed

lemma acquire_once_evolves:
  assumes "db_ok d" shows "evolves s {} d (snd (fst (acquire_once ok t (l, d))))"
proof -
  have "d_jobs (persist ok t m d) = d_jobs d" "db_ok (persist ok t m d)" for m
    using assms by (auto simp: persist_def record_attempt_def db_ok_def uq_dm_jobs_rule_user_def
        uq_events_event_id_def)
  then show ?thesis
    by (cases rule: acquire_once_cases[of t l ok d]) (auto simp: assms intro: evolves_same)
qed

lemma dm_apply_evolves:
  assumes "db_ok d" and "\<And>j. get_job i d = Some j \<Longrightarrow> j_status j \<in> in_hand"
  shows "evolves s {L_ACCEPT, L_THROTTLE, L_TRANSIENT, L_REJECT} d (fst (dm_apply s u now i r d))"
proof (cases rule: dm_apply_cases[of i d s u now r])
  case (moved j j')
  let ?k = "j\<lparr>j_status := SENDING, j_updated_at := j_updated_at j\<rparr>"
  have "send_transition s u now r ?k = Inr j'" by (rule send_transition_any_status[OF moved(2)])
  from send_transition_step[OF this] have step: "step_of s (abs_job ?k) (send_label r) (abs_job j')"
    and id: "same_identity j j'" by (simp_all add: same_identity_def)
  have lab: "send_label r \<in> {L_ACCEPT, L_THROTTLE, L_TRANSIENT, L_REJECT}"
    by (auto simp: send_label_def split: send_outcome.splits)
  have "app_step (max_dm_attempts s) (max_delivery_attempts s) (abs_job j) (send_label r) (abs_job j')"
  proof (cases "j_status j = SENDING")
    case True
    then show ?thesis using app_step.planned[OF step] by (simp add: abs_job_def)
  next
    case False
    then have "j_status j \<in> {QUEUED, CANCELLED}" using assms(2)[OF moved(1)] by (auto simp: in_hand_def)
    with step lab show ?thesis by (auto simp: abs_job_def intro!: app_step.late)
  qed
  with id lab have "job_path s {L_ACCEPT, L_THROTTLE, L_TRANSIENT, L_REJECT} j j'"
    by (auto simp: job_path_def intro: path_step)
  moreover have "db_ok (d\<lparr>d_jobs := replace_by j_id j' (d_jobs d)\<rparr>)"
    using dm_apply_db_ok[OF assms(1), of s u now i r] moved(5) by simp
  ultimately show ?thesis using moved(1,3,5) by (auto intro!: evolves_replace)
qed (simp_all add: assms(1) evolves_same)

lemma release_claim_evolves:
  assumes "db_ok d" shows "evolves s {L_RELEASE} d (fst (release_claim now i d))"
proof (cases rule: release_claim_cases[OF assms, of now i])
  case (2 j j')
  have "job_path s {L_RELEASE} j j'"
    using 2(2,3) by (intro job_path_step[of L_RELEASE])
      (auto simp: abs_job_def same_identity_def intro!: job_step.release)
  moreover have "j_id j' = i" using get_job_SomeD[OF 2(1)] 2(3) by simp
  ultimately show ?thesis
    using 2(1,5) release_claim_db_ok[OF assms, of now i] by (auto intro!: evolves_replace)
qed (simp add: assms evolves_same)

lemma requeue_evolves:
  assumes "db_ok d" "requeue_stale_sending q now d = Inr (d', n)"
  shows "evolves s {L_RELEASE} d d'"
proof -
  obtain cutoff where "d_jobs d' = update_where (stale cutoff)
      (\<lambda>j. j\<lparr>j_status := QUEUED, j_updated_at := now\<rparr>) (d_jobs d)"
    using assms(2) by (auto simp: requeue_stale_sending_def split: sum.splits)
  from requeue_stale_db_ok[OF assms] this show ?thesis
    by (rule evolves_update)
      (auto simp: stale_def abs_job_def same_identity_def
        intro!: job_path_step[of L_RELEASE] job_step.release)
qed

lemma manager_requeue_evolves:
  "db_ok d \<Longrightarrow> evolves s {L_RELEASE} d (fst (manager_requeue_stale cfg now d))"
  by (cases "requeue_stale_sending (sending_stale_seconds cfg) now d")
    (auto simp: manager_requeue_stale_def session_scope_def evolves_same
      intro: requeue_evolves)

lemma reconcile_apply_evolves:
  assumes "db_ok d"
  shows "evolves s {L_DELIVER, L_UNDELIVERED, L_POLL} d (fst (reconcile_apply s u now i status d))"
proof (cases rule: reconcile_apply_cases[OF assms, of i s u now status])
  case (4 j j')
  have "delivery_label status \<in> {L_DELIVER, L_UNDELIVERED, L_POLL}"
    by (simp add: delivery_label_def)
  from job_path_step[OF this delivery_transition_step[OF 4(3,2)]]
  have path: "job_path s {L_DELIVER, L_UNDELIVERED, L_POLL} j j'" .
  have "db_ok (d\<lparr>d_jobs := replace_by j_id j' (d_jobs d)\<rparr>)"
    using reconcile_apply_db_ok[OF assms, of s u now i status] 4(5) by simp
  from evolves_replace[OF this refl _ path] 4(1,4,5) show ?thesis by simp
qed (simp_all add: assms evolves_same)

lemma seed_counters_evolves: "db_ok d \<Longrightarrow> evolves s Ls d (seed_counters d)"
  by (rule evolves_same) (simp_all add: seed_counters_db_ok)

lemma recover_state_evolves:
  assumes "db_ok d" shows "evolves s {L_RELEASE} d (fst (recover_state now d))"
proof -
  let ?d = "fst (requeue_stuck_events (seed_counters d))"
  have stuck: "evolves s {L_RELEASE} d ?d"
    using requeue_stuck_events_db_ok[OF seed_counters_db_ok[OF assms]]
    by (rule evolves_same) (simp add: requeue_stuck_events_def)
  show ?thesis
  proof (cases "requeue_stale_sending 0 now ?d")
    case (Inl e)
    with assms show ?thesis by (simp add: recover_state_def session_scope_def Let_def evolves_same)
  next
    case (Inr x)
    then have "evolves s {L_RELEASE} ?d (fst x)"
      using requeue_evolves[OF evolves_db_ok[OF stuck], of 0 now "fst x" "snd x"] by simp
    with evolves_trans[OF stuck] Inr show ?thesis
      by (auto simp: recover_state_def session_scope_def Let_def split_beta)
  qed
qed

lemma manager_start_evolves:
  assumes "db_ok d" shows "evolves s {L_RELEASE} d (snd (fst (manager_start cfg ok c1 c2 now d)))"
proof (cases "recover_state now d")
  case (Pair d1 r)
  have rec: "evolves s {L_RELEASE} d d1" using recover_state_evolves[OF assms, of s now] Pair by simp
  have "evolves s {L_RELEASE} d1 (snd (warm_start ok c1 c2 (l, d1)))" for l
    using evolves_db_ok[OF rec]
    by (intro evolves_same) (auto simp: warm_start_def Let_def prune_def db_ok_def
        uq_dm_jobs_rule_user_def uq_events_event_id_def)
  with evolves_trans[OF rec] rec Pair show ?thesis
    by (cases r) (auto simp: manager_start_def)
qed

lemma lifespan_start_evolves:
  assumes "db_ok d" shows "evolves s {L_RELEASE} d (snd (fst (lifespan_start cfg ok c1 c2 now d)))"
proof -
  have seed: "evolves s {L_RELEASE} d (seed_counters d)" by (rule seed_counters_evolves[OF assms])
  from evolves_trans[OF this manager_start_evolves[OF evolves_db_ok[OF this]]] seed show ?thesis
    by (auto simp: lifespan_start_def session_scope_def Let_def split: prod.splits)
      (metis fst_conv snd_conv)+
qed

end
