(* ===== verification/System.thy ===== *)
theory System
  imports Evolution
begin

text \<open>
  The running service: the tasks of one process interleaved transaction by transaction, with
  crashes and restarts.  A state holds the database, the limiter and where the send worker
  stands; a label is one transaction or one await of a task, with what the outside chose for
  it.  \<open>sys_do\<close> executes a label by calling the operations of the components.  The fields
  \<open>s_requests\<close>, \<open>s_grants\<close>, \<open>s_clock\<close> and \<open>s_sane\<close> record history for the theorems and
  influence nothing.
\<close>

section \<open>States and steps\<close>

text \<open>
  Where \<open>DMWorker.run_once\<close> stands: idle, waiting for the limiter, granted, waiting for the
  response, or releasing the claim; when the task was cancelled during the write of a
  response, the thread that writes it runs on, before or after the release.  \<open>P_DOWN\<close> means
  that no worker runs; requests are still served, by an instance whose workers are disabled.
\<close>

datatype phase = P_DOWN | P_IDLE | P_CLAIMED claimed | P_GRANTED claimed | P_SENT claimed
  | P_RELEASING claimed "send_result option" | P_WRITTEN claimed | P_LATE claimed send_result

record sys =
  s_db :: db
  s_limiter :: limiter
  s_phase :: phase
  s_requests :: "claimed list"
  s_grants :: "rat list"
  s_clock :: rat
  s_sane :: bool

datatype sys_label =
    RULE string time json
  | DELIVERY "py_exc option" time string "string option"
  | BATCH "nat \<Rightarrow> event_fault" nat time
  | CLAIM time
  | TURN bool rat
  | SEND
  | RESPONSE http_reply rat time
  | INTERRUPT "http_reply option"
  | RELEASE time
  | LATE_WRITE rat time
  | POLL nat json rat time
  | MAINTAIN time
  | CRASH
  | START bool rat rat time

record surroundings =
  o_settings :: settings
  o_hmac :: "string \<Rightarrow> string \<Rightarrow> string"
  o_loads :: "string \<Rightarrow> json res"
  o_fromisoformat :: "string \<Rightarrow> datetime option"

text \<open>What \<open>send_dm\<close> makes of the reply to one request.\<close>

definition answer :: "settings \<Rightarrow> claimed \<Rightarrow> http_reply \<Rightarrow> send_result res" where
  "answer s c reply = snd (send_dm s (\<lambda>_ _. ((), reply)) () (request_of c))"

fun sys_do :: "surroundings \<Rightarrow> sys_label \<Rightarrow> sys \<Rightarrow> sys option" where
  "sys_do o' (RULE i now body) x = Some (x\<lparr>s_db := fst (create_rule i now body (s_db x))\<rparr>)"
| "sys_do o' (DELIVERY storage now body hdr) x =
     Some (x\<lparr>s_db := fst (receive_webhook (o_hmac o') (o_loads o') (o_fromisoformat o')
                          (o_settings o') storage now body hdr (s_db x))\<rparr>)"
| "sys_do o' (BATCH faults limit now) x = (if s_phase x = P_DOWN then None
     else Some (x\<lparr>s_db := fst (process_pending_events faults limit now (s_db x))\<rparr>))"
| "sys_do o' (CLAIM now) x = (if s_phase x = P_IDLE \<and> configured (o_settings o')
     then (case dm_claim now (s_db x) of
             (d, None) \<Rightarrow> Some (x\<lparr>s_db := d\<rparr>)
           | (d, Some c) \<Rightarrow> Some (x\<lparr>s_db := d, s_phase := P_CLAIMED c\<rparr>))
     else None)"
| "sys_do o' (TURN ok t) x = (case s_phase x of
       P_CLAIMED c \<Rightarrow>
         (case acquire_once ok t (s_limiter x, s_db x) of
            ((l, d), r) \<Rightarrow>
              let y = x\<lparr>s_limiter := l, s_db := d, s_clock := t,
                        s_sane := s_sane x \<and> ok \<and> s_clock x \<le> t\<rparr>
              in (case r of
                    GRANT g \<Rightarrow> Some (y\<lparr>s_phase := P_GRANTED c, s_grants := s_grants x @ [g]\<rparr>)
                  | SLEEP _ \<Rightarrow> Some y
                  | RAISE _ \<Rightarrow> Some (y\<lparr>s_phase := P_RELEASING c None\<rparr>)))
     | _ \<Rightarrow> None)"
| "sys_do o' SEND x = (case s_phase x of
       P_GRANTED c \<Rightarrow> Some (x\<lparr>s_phase := P_SENT c, s_requests := c # s_requests x\<rparr>)
     | _ \<Rightarrow> None)"
| "sys_do o' (RESPONSE reply u now) x = (case s_phase x of
       P_SENT c \<Rightarrow>
         (case answer (o_settings o') c reply of
            Inl _ \<Rightarrow> Some (x\<lparr>s_phase := P_RELEASING c None\<rparr>)
          | Inr r \<Rightarrow>
              (case dm_apply (o_settings o') u now (cl_id c) r (s_db x) of
                 (d, Inl _) \<Rightarrow> Some (x\<lparr>s_db := d, s_phase := P_RELEASING c None\<rparr>)
               | (d, Inr _) \<Rightarrow> Some (x\<lparr>s_db := d, s_phase := P_IDLE\<rparr>)))
     | _ \<Rightarrow> None)"
| "sys_do o' (INTERRUPT reply) x = (case s_phase x of
       P_CLAIMED c \<Rightarrow> Some (x\<lparr>s_phase := P_RELEASING c None\<rparr>)
     | P_GRANTED c \<Rightarrow> Some (x\<lparr>s_phase := P_RELEASING c None\<rparr>)
     | P_SENT c \<Rightarrow> Some (x\<lparr>s_phase := P_RELEASING c (case reply of
           None \<Rightarrow> None
         | Some h \<Rightarrow> (case answer (o_settings o') c h of Inl _ \<Rightarrow> None | Inr r \<Rightarrow> Some r))\<rparr>)
     | _ \<Rightarrow> None)"
| "sys_do o' (RELEASE now) x = (case s_phase x of
       P_RELEASING c p \<Rightarrow> Some (x\<lparr>s_db := fst (release_claim now (cl_id c) (s_db x)),
           s_phase := (case p of None \<Rightarrow> P_IDLE | Some r \<Rightarrow> P_LATE c r)\<rparr>)
     | P_WRITTEN c \<Rightarrow>
         Some (x\<lparr>s_db := fst (release_claim now (cl_id c) (s_db x)), s_phase := P_IDLE\<rparr>)
     | _ \<Rightarrow> None)"
| "sys_do o' (LATE_WRITE u now) x = (case s_phase x of
       P_RELEASING c (Some r) \<Rightarrow>
         Some (x\<lparr>s_db := fst (dm_apply (o_settings o') u now (cl_id c) r (s_db x)),
                s_phase := P_WRITTEN c\<rparr>)
     | P_LATE c r \<Rightarrow>
         Some (x\<lparr>s_db := fst (dm_apply (o_settings o') u now (cl_id c) r (s_db x)),
                s_phase := P_IDLE\<rparr>)
     | _ \<Rightarrow> None)"
| "sys_do o' (POLL i status u now) x = (if s_phase x = P_DOWN then None
     else Some (x\<lparr>s_db := fst (reconcile_apply (o_settings o') u now i status (s_db x))\<rparr>))"
| "sys_do o' (MAINTAIN now) x = (if s_phase x = P_DOWN then None
     else Some (x\<lparr>s_db := fst (manager_requeue_stale (o_settings o') now (s_db x))\<rparr>))"
| "sys_do o' CRASH x = Some (x\<lparr>s_phase := P_DOWN\<rparr>)"
| "sys_do o' (START ok c1 c2 now) x = (if s_phase x \<noteq> P_DOWN then None
     else (case lifespan_start (o_settings o') ok c1 c2 now (s_db x) of
             ((Some l, d), Inr _) \<Rightarrow> Some (x\<lparr>s_db := d, s_limiter := l, s_phase := P_IDLE,
                 s_clock := c2, s_sane := s_sane x \<and> ok \<and> s_clock x \<le> c1 \<and> c1 \<le> c2\<rparr>)
           | ((_, d), _) \<Rightarrow> Some (x\<lparr>s_db := d\<rparr>)))"

definition sys_start :: "surroundings \<Rightarrow> rat \<Rightarrow> sys" where
  "sys_start o' clock = \<lparr>s_db = empty_db, s_limiter = manager_limiter (o_settings o'), s_phase = P_DOWN,
     s_requests = [], s_grants = [], s_clock = clock, s_sane = True\<rparr>"

fun sys_run :: "surroundings \<Rightarrow> sys_label list \<Rightarrow> sys \<Rightarrow> sys option" where
  "sys_run o' [] x = Some x"
| "sys_run o' (l # ls) x = (case sys_do o' l x of None \<Rightarrow> None | Some y \<Rightarrow> sys_run o' ls y)"

definition sys_step :: "surroundings \<Rightarrow> sys \<Rightarrow> sys_label \<Rightarrow> sys \<Rightarrow> bool" where
  "sys_step o' x l y \<longleftrightarrow> sys_do o' l x = Some y"

lemma sys_run_reachable:
  "sys_run o' ls x = Some y \<Longrightarrow> reachable start (sys_step o') x \<Longrightarrow> reachable start (sys_step o') y"
proof (induction ls arbitrary: x)
  case (Cons lab ls)
  obtain x' where x': "sys_do o' lab x = Some x'" "sys_run o' ls x' = Some y"
    using Cons.prems(1)
    by (auto split: option.splits)
  have "reachable start (sys_step o') x'"
    using Cons.prems(2) by (rule reachable.reach_step[where l = lab]) (simp add: sys_step_def x'(1))
  with Cons.IH x'(2) show ?case by blast
qed simp

text \<open>The job in the hands of the send worker.\<close>

fun in_flight :: "phase \<Rightarrow> claimed option" where
  "in_flight P_DOWN = None"
| "in_flight P_IDLE = None"
| "in_flight (P_CLAIMED c) = Some c"
| "in_flight (P_GRANTED c) = Some c"
| "in_flight (P_SENT c) = Some c"
| "in_flight (P_RELEASING c p) = Some c"
| "in_flight (P_WRITTEN c) = None"
| "in_flight (P_LATE c r) = Some c"

fun unused_grant :: "phase \<Rightarrow> nat" where
  "unused_grant (P_GRANTED c) = 1"
| "unused_grant _ = 0"

section \<open>What a step changes\<close>

definition worker_labels :: "jlabel set" where
  "worker_labels = {L_CLAIM, L_ACCEPT, L_THROTTLE, L_TRANSIENT, L_REJECT}"

definition holds :: "db \<Rightarrow> claimed \<Rightarrow> bool" where
  "holds d c \<longleftrightarrow> (\<exists>j. get_job (cl_id c) d = Some j \<and> j_status j \<in> in_hand \<and> c = claimed_of j)"

text \<open>What other tasks do leaves the worker's job in its hands, with the same key.\<close>

lemma evolves_holds:
  assumes "evolves s Ls d d'" "Ls \<inter> worker_labels = {}" "holds d c"
  shows "holds d' c"
proof -
  obtain j where j: "get_job (cl_id c) d = Some j" "j_status j \<in> in_hand" "c = claimed_of j"
    using assms(3) by (auto simp: holds_def)
  obtain j' where j': "get_job (cl_id c) d' = Some j'" "same_identity j j'" "path s Ls (abs_job j) (abs_job j')"
    using assms(1) j(1) unfolding evolves_def job_path_def by blast
  have "fst (abs_job j') \<in> in_hand \<and> snd (abs_job j') = snd (abs_job j)"
    using path_in_hand[OF j'(3)[unfolded abs_job_def[of j]] j(2)] assms(2)
    by (simp add: abs_job_def worker_labels_def)
  then show ?thesis
    using j j'(1,2) by (simp add: holds_def claimed_of_def idempotency_key_def abs_job_def same_identity_def)
qed

lemma dm_claim_holds:
  assumes "db_ok d" "dm_claim now d = (d', Some c)" shows "holds d' c"
proof -
  from dm_claim_someE[OF assms] obtain j where j: "c = claimed_of j" "cl_id c = j_id j"
    "get_job (j_id j) d' = Some (j\<lparr>j_status := SENDING, j_updated_at := now\<rparr>)" by metis
  then show ?thesis by (simp add: holds_def in_hand_def claimed_of_def idempotency_key_def)
qed

text \<open>Every step makes the database evolve; what is in flight stays in hand.\<close>

lemma dm_apply_holds:
  assumes "db_ok d" "holds d c"
  shows "evolves s {L_ACCEPT, L_THROTTLE, L_TRANSIENT, L_REJECT} d (fst (dm_apply s u now (cl_id c) r d))"
  using assms by (intro dm_apply_evolves) (auto simp: holds_def)

definition flight_ok :: "sys \<Rightarrow> bool" where
  "flight_ok x \<longleftrightarrow> (\<forall>c. in_flight (s_phase x) = Some c \<longrightarrow> holds (s_db x) c)"

lemma flight_other:
  assumes "evolves s Ls (s_db x) d" "Ls \<inter> worker_labels = {}" "flight_ok x"
    and "in_flight p = None \<or> in_flight p = in_flight (s_phase x)"
  shows "evolves s UNIV (s_db x) d \<and> (\<forall>c. in_flight p = Some c \<longrightarrow> holds d c)"
  using evolves_holds[OF assms(1,2)] assms(3,4) evolves_mono[OF assms(1)]
  by (auto simp: flight_ok_def)

lemma sys_do_evolves:
  assumes "sys_do o' l x = Some y" "db_ok (s_db x)" "flight_ok x"
  shows "evolves (o_settings o') UNIV (s_db x) (s_db y) \<and> flight_ok y"
proof -
  let ?s = "o_settings o'"
  note ok = assms(2)
  have goal: ?thesis if "evolves ?s Ls (s_db x) (s_db y)" "Ls \<inter> worker_labels = {}"
    "in_flight (s_phase y) = None \<or> in_flight (s_phase y) = in_flight (s_phase x)" for Ls
    using flight_other[OF that(1,2) assms(3) that(3)] by (simp add: flight_ok_def)
  have same: ?thesis if "s_db y = s_db x"
    "in_flight (s_phase y) = None \<or> in_flight (s_phase y) = in_flight (s_phase x)"
    by (rule goal[of "{}"]) (use that ok in \<open>auto intro: evolves_same\<close>)
  note w = worker_labels_def
  show ?thesis
  proof (cases l)
    case (RULE i now body)
    then show ?thesis using assms(1) create_rule_evolves[OF ok] by (intro goal[of "{}"]) auto
  next
    case (DELIVERY storage now body hdr)
    then show ?thesis using assms(1) receive_webhook_evolves[OF ok] by (intro goal[of "{}"]) auto
  next
    case (BATCH faults limit now)
    then show ?thesis using assms(1) event_batch_evolves[OF ok]
      by (intro goal[of "{L_CANCEL}"]) (auto simp: w split: if_splits)
  next
    case (CLAIM now)
    obtain d r where c: "dm_claim now (s_db x) = (d, r)" by fastforce
    have e: "evolves ?s UNIV (s_db x) d"
      using evolves_mono[OF dm_claim_evolves[OF ok, of ?s now]] c by simp
    show ?thesis
      using assms(1) CLAIM c e dm_claim_holds[OF ok, of now d]
      by (cases r) (auto simp: flight_ok_def split: if_splits)
  next
    case (TURN b t)
    obtain c where ph: "s_phase x = P_CLAIMED c" using assms(1) TURN by (auto split: phase.splits)
    obtain l d r where a: "acquire_once b t (s_limiter x, s_db x) = ((l, d), r)"
      by (metis prod.collapse)
    have e: "evolves ?s {} (s_db x) d"
      using acquire_once_evolves[OF ok, of ?s b t "s_limiter x"] a by simp
    show ?thesis
      by (rule goal[of "{}"]) (use assms(1) TURN ph a e in \<open>auto simp: Let_def split: attempt.splits\<close>)
  next
    case SEND
    then show ?thesis using assms(1) by (intro same) (auto split: phase.splits)
  next
    case (RESPONSE reply u now)
    obtain c where ph: "s_phase x = P_SENT c" using assms(1) RESPONSE by (auto split: phase.splits)
    have h: "holds (s_db x) c" using assms(3) ph by (simp add: flight_ok_def)
    show ?thesis
    proof (cases "answer ?s c reply")
      case (Inl e)
      then show ?thesis using assms(1) RESPONSE ph by (intro same) auto
    next
      case (Inr r)
      obtain d z where d: "dm_apply ?s u now (cl_id c) r (s_db x) = (d, z)" by fastforce
      note e = dm_apply_holds[OF ok h, of ?s u now r, unfolded d fst_conv]
      show ?thesis
      proof (cases z)
        case (Inl er)
        then have "d = s_db x" using d dm_apply_cases[of "cl_id c" "s_db x" ?s u now r] by (metis Inr_not_Inl prod.inject)
        then show ?thesis using assms(1) RESPONSE ph Inr d Inl by (intro same) auto
      next
        case z: (Inr v)
        then show ?thesis using assms(1) RESPONSE ph Inr d evolves_mono[OF e subset_UNIV]
          by (auto simp: flight_ok_def)
      qed
    qed
  next
    case (INTERRUPT reply)
    then show ?thesis using assms(1) by (intro same) (auto split: phase.splits)
  next
    case (RELEASE now)
    then show ?thesis using assms(1) release_claim_evolves[OF ok]
      by (intro goal[of "{L_RELEASE}"]) (auto simp: w split: phase.splits option.splits)
  next
    case (POLL i status u now)
    then have "s_db y = fst (reconcile_apply ?s u now i status (s_db x))" "s_phase y = s_phase x"
      using assms(1) by (auto split: if_splits)
    then show ?thesis using reconcile_apply_evolves[OF ok, of ?s u now i status]
      by (intro goal[of "{L_DELIVER, L_UNDELIVERED, L_POLL}"]) (simp_all add: w)
  next
    case (MAINTAIN now)
    then show ?thesis using assms(1) manager_requeue_evolves[OF ok]
      by (intro goal[of "{L_RELEASE}"]) (auto simp: w split: if_splits)
  next
    case CRASH
    then show ?thesis using assms(1) by (intro same) auto
  next
    case (START b c1 c2 now)
    obtain m d z where st: "lifespan_start ?s b c1 c2 now (s_db x) = ((m, d), z)" by (metis prod.collapse)
    have "s_db y = d" "in_flight (s_phase y) = None"
      using assms(1) START st by (auto split: if_splits option.splits sum.splits)
    then show ?thesis using lifespan_start_evolves[OF ok, of ?s ?s b c1 c2 now] st
      by (intro goal[of "{L_RELEASE}"]) (simp_all add: w)
  next
    case (LATE_WRITE u now)
    obtain c r where h: "holds (s_db x) c" "s_db y = fst (dm_apply ?s u now (cl_id c) r (s_db x))"
      "in_flight (s_phase y) = None"
      using assms(1,3) LATE_WRITE by (auto simp: flight_ok_def split: phase.splits option.splits)
    with evolves_mono[OF dm_apply_holds[OF ok h(1), of ?s u now r]] show ?thesis
      by (simp add: flight_ok_def)
  qed
qed

section \<open>The log of sends\<close>

lemma log_frame [frame_simps]:
  "d_send_log (fst (create_rule i now body d)) = d_send_log d"
  "d_send_log (fst (receive_webhook hmac loads parse s storage now raw hdr d)) = d_send_log d"
  "d_send_log (fst (dm_claim now d)) = d_send_log d"
  "d_send_log (fst (dm_apply s u now k r d)) = d_send_log d"
  "d_send_log (fst (manager_requeue_stale s now d)) = d_send_log d"
  "d_send_log (fst (recover_state now d)) = d_send_log d"
proof -
  show "d_send_log (fst (create_rule i now body d)) = d_send_log d"
    by (cases rule: create_rule_cases[of i now body d]) auto
  show "d_send_log (fst (receive_webhook hmac loads parse s storage now raw hdr d)) = d_send_log d"
    by (cases rule: receive_webhook_cases[of hmac loads parse s storage now raw hdr d])
      (auto dest: ingest_event_jobs)
  have "d_send_log (fst (claim_from ids now d)) = d_send_log d" for ids
    by (induction ids) (auto simp: claim_update_def)
  then show "d_send_log (fst (dm_claim now d)) = d_send_log d"
    by (simp add: dm_claim_frame claim_next_job_def)
  show "d_send_log (fst (dm_apply s u now k r d)) = d_send_log d"
    by (cases rule: dm_apply_cases[of k d s u now r]) auto
  show "d_send_log (fst (manager_requeue_stale s now d)) = d_send_log d"
    by (auto simp: manager_requeue_stale_def session_scope_def requeue_stale_sending_def split: sum.splits)
  show "d_send_log (fst (recover_state now d)) = d_send_log d"
    by (auto simp: recover_state_def session_scope_def requeue_stale_sending_def requeue_stuck_events_def
        Let_def split: sum.splits)
qed

lemma log_frame_batch [frame_simps]:
  "d_send_log (fst (process_pending_events faults limit now d)) = d_send_log d"
proof -
  have "d_send_log (fst (process_loop faults es now h d)) = d_send_log d" for es h d
    by (induction es arbitrary: d h)
      (auto simp: process_event_frame release_event_def split: event_fault.splits)
  then show ?thesis by (simp add: process_pending_events_def split_beta claim_pending_events_def)
qed

lemma log_frame_release [frame_simps]:
  "d_send_log (fst (release_claim now k d)) = d_send_log d"
  by (auto simp: release_claim_def session_scope_def flush_job_def split: option.splits sum.splits if_splits)

lemma log_frame_poll [frame_simps]:
  "d_send_log (fst (reconcile_apply s u now k status d)) = d_send_log d"
  by (auto simp: reconcile_apply_def session_scope_def apply_delivery_status_def flush_job_def
      split: option.splits sum.splits if_splits)

lemma limiter_inv_log:
  "limiter_inv w n t gs (l, d) \<Longrightarrow> d_send_log d' = d_send_log d \<Longrightarrow> limiter_inv w n t gs (l, d')"
  by (simp add: limiter_inv_def load_recent_def)

definition limiter_ok :: "surroundings \<Rightarrow> sys \<Rightarrow> bool" where
  "limiter_ok o' x \<longleftrightarrow> (let s = o_settings o' in
     (s_limiter x)\<lparr>rl_timestamps := []\<rparr> = manager_limiter s
     \<and> (s_sane x \<longrightarrow> limiter_inv (send_rate_limit_window_seconds s) (send_rate_limit_max_calls s)
           (s_clock x) (s_grants x) (s_limiter x, s_db x)))"

lemma limiter_ok_frame:
  "limiter_ok o' x \<Longrightarrow> s_limiter y = s_limiter x \<Longrightarrow> s_grants y = s_grants x \<Longrightarrow> s_clock y = s_clock x
   \<Longrightarrow> s_sane y = s_sane x \<Longrightarrow> d_send_log (s_db y) = d_send_log (s_db x) \<Longrightarrow> limiter_ok o' y"
  by (auto simp: limiter_ok_def Let_def intro: limiter_inv_log)

lemma limiter_ok_turn:
  assumes "sys_do o' (TURN b t) x = Some y" "limiter_ok o' x"
    and "0 < send_rate_limit_window_seconds (o_settings o')"
  shows "limiter_ok o' y"
proof -
  let ?s = "o_settings o'"
  obtain c where ph: "s_phase x = P_CLAIMED c" using assms(1) by (auto split: phase.splits)
  obtain l d r where a: "acquire_once b t (s_limiter x, s_db x) = ((l, d), r)"
    by (metis prod.collapse)
  have y: "s_limiter y = l" "s_db y = d" "s_clock y = t" "s_sane y \<longleftrightarrow> s_sane x \<and> b \<and> s_clock x \<le> t"
    "s_grants y = (case r of GRANT g \<Rightarrow> s_grants x @ [g] | _ \<Rightarrow> s_grants x)"
    using assms(1) ph a by (auto simp: Let_def split: attempt.splits)
  have rec: "l\<lparr>rl_timestamps := []\<rparr> = (s_limiter x)\<lparr>rl_timestamps := []\<rparr>"
    by (cases rule: acquire_once_cases[of t "s_limiter x" b "s_db x"])
      (use a in \<open>auto simp: trim_def Let_def\<close>)
  have "limiter_inv (send_rate_limit_window_seconds ?s) (send_rate_limit_max_calls ?s) t (s_grants y) (l, d)"
    if sane: "s_sane y"
  proof -
    have "limiter_inv (send_rate_limit_window_seconds ?s) (send_rate_limit_max_calls ?s) t (s_grants x)
        (s_limiter x, s_db x)"
      using assms(2) sane y(4) by (auto simp: limiter_ok_def Let_def intro: limiter_inv_later)
    from limiter_inv_attempt[OF this assms(3)] a sane y(4,5) show ?thesis
      by (cases r) auto
  qed
  with rec assms(2) y show ?thesis by (auto simp: limiter_ok_def Let_def)
qed

lemma limiter_ok_start:
  assumes "sys_do o' (START b c1 c2 now) x = Some y" "limiter_ok o' x"
  shows "limiter_ok o' y"
proof -
  let ?s = "o_settings o'"
  let ?w = "send_rate_limit_window_seconds ?s" and ?n = "send_rate_limit_max_calls ?s"
  let ?d0 = "fst (session_scope (\<lambda>d. Inr (seed_counters d, ())) (s_db x))"
  have seed: "d_send_log ?d0 = d_send_log (s_db x)" by (simp add: session_scope_def)
  obtain d1 z where rec: "recover_state now ?d0 = (d1, z)" by fastforce
  have d1: "d_send_log d1 = d_send_log (s_db x)" using log_frame(6)[of now ?d0] rec seed by simp
  consider (off) "\<not> enable_workers ?s" | (bad) "enable_workers ?s" "z \<noteq> Inr ()"
    | (on) "enable_workers ?s" "z = Inr ()" by blast
  then show ?thesis
  proof cases
    case off
    then show ?thesis using assms seed
      by (intro limiter_ok_frame[OF assms(2)]) (auto simp: lifespan_start_def Let_def split: if_splits)
  next
    case bad
    then obtain e where "z = Inl e" by (cases z) auto
    then show ?thesis using assms(1) rec bad d1
      by (intro limiter_ok_frame[OF assms(2)])
        (auto simp: lifespan_start_def manager_start_def Let_def split: if_splits)
  next
    case on
    obtain l d where ws: "warm_start b c1 c2 (manager_limiter ?s, d1) = (l, d)" by fastforce
    have y: "s_limiter y = l" "s_db y = d" "s_clock y = c2" "s_grants y = s_grants x"
      "s_sane y \<longleftrightarrow> s_sane x \<and> b \<and> s_clock x \<le> c1 \<and> c1 \<le> c2"
      using assms(1) on rec ws by (auto simp: lifespan_start_def manager_start_def Let_def split: if_splits)
    have fresh: "(s_limiter x)\<lparr>rl_timestamps := []\<rparr> = manager_limiter ?s"
      using assms(2) by (simp add: limiter_ok_def Let_def)
    have "l\<lparr>rl_timestamps := []\<rparr> = manager_limiter ?s"
      using ws by (auto simp: warm_start_def Let_def manager_limiter_def new_limiter_def seed_def trim_def
          split: if_splits)
    moreover have "limiter_inv ?w ?n c2 (s_grants x) (l, d)" if sane: "s_sane y"
    proof -
      have t: "s_clock x \<le> c1" "c1 \<le> c2" "b" using sane y(5) by auto
      have "limiter_inv ?w ?n (s_clock x) (s_grants x) (s_limiter x, d1)"
        using assms(2) sane y(5) d1 by (auto simp: limiter_ok_def Let_def intro: limiter_inv_log)
      from limiter_inv_restart[OF this t(1,2)] ws t(3) fresh show ?thesis by simp
    qed
    ultimately show ?thesis using y by (simp add: limiter_ok_def Let_def)
  qed
qed

lemma sys_do_limiter_ok:
  assumes "sys_do o' l x = Some y" "limiter_ok o' x"
    and "0 < send_rate_limit_window_seconds (o_settings o')"
  shows "limiter_ok o' y"
proof (cases l)
  case (TURN b t)
  with limiter_ok_turn assms show ?thesis by metis
next
  case (START b c1 c2 now)
  with limiter_ok_start assms show ?thesis by metis
next
  case (CLAIM now)
  then show ?thesis
    using assms(1) log_frame(3)[of now "s_db x"]
    by (intro limiter_ok_frame[OF assms(2)]) (auto split: if_splits prod.splits option.splits)
next
  case (RESPONSE reply u now)
  then obtain c where ph: "s_phase x = P_SENT c" using assms(1) by (auto split: phase.splits)
  have "s_limiter y = s_limiter x \<and> s_grants y = s_grants x \<and> s_clock y = s_clock x
      \<and> s_sane y = s_sane x \<and> d_send_log (s_db y) = d_send_log (s_db x)"
  proof (cases "answer (o_settings o') c reply")
    case (Inl e)
    then show ?thesis using assms(1) RESPONSE ph by auto
  next
    case (Inr r)
    then show ?thesis
      using assms(1) RESPONSE ph log_frame(4)[of "o_settings o'" u now "cl_id c" r "s_db x"]
      by (auto split: prod.splits sum.splits)
  qed
  then show ?thesis by (intro limiter_ok_frame[OF assms(2)]) auto
qed (use assms(1) in \<open>intro limiter_ok_frame[OF assms(2)],
    auto simp: frame_simps split: if_splits phase.splits option.splits\<close>)+

section \<open>The invariant of the service\<close>

definition good_settings :: "settings \<Rightarrow> bool" where
  "good_settings s \<longleftrightarrow> 1 \<le> max_dm_attempts s \<and> 1 \<le> max_delivery_attempts s
     \<and> 0 < send_rate_limit_window_seconds s"

lemma good_default: "good_settings default_settings" "good_settings keyed_settings"
  by (simp_all add: good_settings_def keyed_settings_def default_settings_simps)

text \<open>A request on record: it named a job that exists, in a send cycle the job has reached.\<close>

definition on_record :: "settings \<Rightarrow> db \<Rightarrow> claimed \<Rightarrow> bool" where
  "on_record s d c \<longleftrightarrow> (\<exists>j k. get_job (cl_id c) d = Some j \<and> k \<le> j_send_cycle j
     \<and> int k < max_delivery_attempts s \<and> c = claimed_of (j\<lparr>j_send_cycle := k\<rparr>))"

definition jobs_on_path :: "settings \<Rightarrow> db \<Rightarrow> bool" where
  "jobs_on_path s d \<longleftrightarrow> (\<forall>i j. get_job i d = Some j \<longrightarrow> path s UNIV (QUEUED, 0, 0, 0) (abs_job j))"

definition sys_inv :: "surroundings \<Rightarrow> sys \<Rightarrow> bool" where
  "sys_inv o' x \<longleftrightarrow> db_ok (s_db x) \<and> flight_ok x \<and> jobs_on_path (o_settings o') (s_db x)
     \<and> (\<forall>c \<in> set (s_requests x). on_record (o_settings o') (s_db x) c)
     \<and> length (s_requests x) + unused_grant (s_phase x) \<le> length (s_grants x)
     \<and> limiter_ok o' x"

lemma evolves_on_record:
  assumes "evolves s UNIV d d'" "on_record s d c" shows "on_record s d' c"
proof -
  obtain j k where j: "get_job (cl_id c) d = Some j" "k \<le> j_send_cycle j"
    "int k < max_delivery_attempts s" "c = claimed_of (j\<lparr>j_send_cycle := k\<rparr>)"
    using assms(2) by (auto simp: on_record_def)
  obtain j' where j': "get_job (cl_id c) d' = Some j'" "same_identity j j'" "path s UNIV (abs_job j) (abs_job j')"
    using assms(1) j(1) unfolding evolves_def job_path_def by blast
  have "j_send_cycle j \<le> j_send_cycle j'" using path_cycle j'(3) unfolding abs_job_def by blast
  then show ?thesis
    using j j'(1,2) unfolding on_record_def
    by (intro exI[of _ j'] exI[of _ k])
      (auto simp: claimed_of_def idempotency_key_def same_identity_def)
qed

lemma evolves_jobs_on_path:
  assumes "evolves s UNIV d d'" "jobs_on_path s d" shows "jobs_on_path s d'"
  unfolding jobs_on_path_def
proof (intro allI impI)
  fix i j' assume g: "get_job i d' = Some j'"
  show "path s UNIV (QUEUED, 0, 0, 0) (abs_job j')"
  proof (cases "get_job i d")
    case None
    with g assms(1) show ?thesis unfolding evolves_def by blast
  next
    case (Some j)
    then have "job_path s UNIV j j'" using g assms(1) unfolding evolves_def by fastforce
    with Some assms(2) path_trans show ?thesis unfolding jobs_on_path_def job_path_def by blast
  qed
qed

lemma job_budget_on_path:
  assumes "jobs_on_path s d" "get_job i d = Some j" "good_settings s"
  shows "job_budget (max_dm_attempts s) (max_delivery_attempts s) (abs_job j)"
  using assms path_budget[of s UNIV "(QUEUED, 0, 0, 0)" "abs_job j"]
  by (auto simp: jobs_on_path_def good_settings_def)

lemma holds_on_record:
  assumes "holds d c" "jobs_on_path s d" "good_settings s" shows "on_record s d c"
proof -
  obtain j where j: "get_job (cl_id c) d = Some j" "j_status j \<in> in_hand" "c = claimed_of j"
    using assms(1) by (auto simp: holds_def)
  from job_budget_on_path[OF assms(2) j(1) assms(3)] j(2)
  have "int (j_send_cycle j) < max_delivery_attempts s" by (auto simp: abs_job_def in_hand_def)
  then show ?thesis
    using j unfolding on_record_def by (intro exI[of _ j] exI[of _ "j_send_cycle j"]) simp
qed

text \<open>The two histories: a request uses up a grant.\<close>

lemma sys_do_requests:
  assumes "sys_do o' l x = Some y"
  shows "(s_requests y = s_requests x \<and> unused_grant (s_phase y) + length (s_grants x)
            \<le> unused_grant (s_phase x) + length (s_grants y))
     \<or> (\<exists>c. l = SEND \<and> s_phase x = P_GRANTED c \<and> s_phase y = P_SENT c
          \<and> s_requests y = c # s_requests x \<and> s_grants y = s_grants x \<and> s_db y = s_db x)"
  using assms
  by (cases l) (auto simp: Let_def split: if_splits prod.splits option.splits sum.splits phase.splits attempt.splits)

lemma sys_start_inv: "sys_inv o' (sys_start o' t)"
proof -
  have jobs: "get_job i empty_db = None" for i by (simp add: empty_db_def get_job_def find_by_def)
  have "limiter_inv w n t [] (manager_limiter s, empty_db)"
    if "w = send_rate_limit_window_seconds s" "n = send_rate_limit_max_calls s" for s w n
    unfolding manager_limiter_def that by (rule limiter_inv_start) (simp add: empty_db_def)
  then have "limiter_ok o' (sys_start o' t)"
    by (simp add: limiter_ok_def sys_start_def Let_def manager_limiter_def new_limiter_def)
  with jobs db_ok_empty show ?thesis
    by (simp add: sys_inv_def sys_start_def flight_ok_def jobs_on_path_def)
qed

lemma sys_step_inv:
  assumes "good_settings (o_settings o')" "sys_step o' x l y" "sys_inv o' x"
  shows "sys_inv o' y"
proof -
  let ?s = "o_settings o'"
  have step: "sys_do o' l x = Some y" using assms(2) by (simp add: sys_step_def)
  have x: "db_ok (s_db x)" "flight_ok x" "jobs_on_path ?s (s_db x)" "limiter_ok o' x"
    "\<And>c. c \<in> set (s_requests x) \<Longrightarrow> on_record ?s (s_db x) c"
    "length (s_requests x) + unused_grant (s_phase x) \<le> length (s_grants x)"
    using assms(3) by (auto simp: sys_inv_def)
  note e = sys_do_evolves[OF step x(1,2)]
  have p: "jobs_on_path ?s (s_db y)" using e x(3) evolves_jobs_on_path by blast
  have r: "on_record ?s (s_db y) c" if "c \<in> set (s_requests y)" for c
  proof -
    have "on_record ?s (s_db x) c"
      using sys_do_requests[OF step] that x(2,5) holds_on_record[OF _ x(3) assms(1)]
      by (auto simp: flight_ok_def)
    with e evolves_on_record show ?thesis by blast
  qed
  have "length (s_requests y) + unused_grant (s_phase y) \<le> length (s_grants y)"
    using sys_do_requests[OF step] x(6) by auto
  moreover have "limiter_ok o' y"
    using sys_do_limiter_ok[OF step x(4)] assms(1) by (simp add: good_settings_def)
  ultimately show ?thesis using e p r evolves_db_ok by (auto simp: sys_inv_def)
qed

lemma service_system:
  "good_settings (o_settings o') \<Longrightarrow>
   invariant_system (\<lambda>x. x = sys_start o' t) (sys_step o') (sys_inv o')"
  by unfold_locales (use sys_start_inv sys_step_inv in blast)+

lemma sys_run_inv:
  assumes "good_settings (o_settings o')" "sys_run o' ls (sys_start o' t) = Some x"
  shows "sys_inv o' x"
proof -
  have "reachable (\<lambda>x. x = sys_start o' t) (sys_step o') x"
    using sys_run_reachable[OF assms(2)] by (simp add: reachable.reach_start)
  with invariant_system.reachable_inv[OF service_system[OF assms(1)]] show ?thesis .
qed

section \<open>Properties of the service\<close>

text \<open>
  C3: Nobody is promised two messages for one rule.  Whatever happens to the service (requests
  in any order, workers interleaved, answers lost or late, errors, crashes and restarts), at
  every moment at most one job per rule and user is not cancelled, and every job belongs to a
  rule.
\<close>

theorem one_live_job_per_user:
  assumes "good_settings (o_settings o')" and "sys_run o' ls (sys_start o' t) = Some x"
  shows "card {j \<in> set (d_jobs (s_db x)). j_status j \<noteq> CANCELLED \<and> j_rule_id j = r \<and> j_user_id j = u} \<le> 1
     \<and> j_rule_id ` set (d_jobs (s_db x)) \<subseteq> r_id ` set (d_rules (s_db x))"
proof -
  have ok: "db_ok (s_db x)" using sys_run_inv[OF assms] by (simp add: sys_inv_def)
  let ?A = "{j \<in> set (d_jobs (s_db x)). j_status j \<noteq> CANCELLED \<and> j_rule_id j = r \<and> j_user_id j = u}"
  have "j = k" if "j \<in> ?A" "k \<in> ?A" for j k
    using that by (intro db_ok_job_unique[OF ok]) (simp_all add: holds_slot_def slot_def)
  then have "card ?A \<le> Suc 0" by (subst card_le_Suc0_iff_eq) (simp, blast)
  with ok show ?thesis unfolding db_ok_def by auto
qed


text \<open>
  C4: What can reach a user for one job.  Every request the service ever made belongs to a job
  on record; two requests with the same idempotency key are the same request (recipient,
  message, comment), so a server that honours the keys sends it once; and over its whole life,
  crashes included, a job is sent with at most \<open>max_delivery_attempts\<close> different keys.
\<close>

theorem requests_per_job_bounded:
  assumes "good_settings (o_settings o')" and "sys_run o' ls (sys_start o' t) = Some x"
  shows "cl_id ` set (s_requests x) \<subseteq> j_id ` set (d_jobs (s_db x))
     \<and> inj_on cl_idempotency_key (set (s_requests x))
     \<and> int (card (cl_idempotency_key ` {c \<in> set (s_requests x). cl_id c = i}))
         \<le> max_delivery_attempts (o_settings o')"
proof -
  let ?D = "max_delivery_attempts (o_settings o')"
  have rec: "on_record (o_settings o') (s_db x) c" if "c \<in> set (s_requests x)" for c
    using sys_run_inv[OF assms] that by (simp add: sys_inv_def)
  have ids: "cl_id ` set (s_requests x) \<subseteq> j_id ` set (d_jobs (s_db x))"
    using rec by (force simp: on_record_def dest: get_job_SomeD)
  have inj: "inj_on cl_idempotency_key (set (s_requests x))"
  proof (rule inj_onI)
    fix b c assume "b \<in> set (s_requests x)" "c \<in> set (s_requests x)"
      and key: "cl_idempotency_key b = cl_idempotency_key c"
    then obtain j k j' k' where
      jk: "get_job (cl_id b) (s_db x) = Some j" "b = claimed_of (j\<lparr>j_send_cycle := k\<rparr>)"
      "get_job (cl_id c) (s_db x) = Some j'" "c = claimed_of (j'\<lparr>j_send_cycle := k'\<rparr>)"
      using rec unfolding on_record_def by metis
    have "idempotency_key (j\<lparr>j_send_cycle := k\<rparr>) = idempotency_key (j'\<lparr>j_send_cycle := k'\<rparr>)"
      using key unfolding jk(2,4) by (simp add: claimed_of_def)
    then have same: "j_id j = j_id j'" "k = k'" by (simp_all add: idempotency_key_eq_iff)
    have "cl_id b = j_id j" "cl_id c = j_id j'" by (subst jk, simp add: claimed_of_def)+
    then have "j = j'" using jk(1,3) same(1) by simp
    with jk(2,4) same(2) show "b = c" by simp
  qed
  let ?key = "\<lambda>k. cl_idempotency_key (claimed_of ((the (get_job i (s_db x)))\<lparr>j_send_cycle := k\<rparr>))"
  have "cl_idempotency_key ` {c \<in> set (s_requests x). cl_id c = i} \<subseteq> ?key ` {k. k < nat ?D}"
  proof (rule image_subsetI)
    fix c assume "c \<in> {c \<in> set (s_requests x). cl_id c = i}"
    then have c: "c \<in> set (s_requests x)" "cl_id c = i" by auto
    obtain j k where jk: "get_job (cl_id c) (s_db x) = Some j" "int k < ?D" "c = claimed_of (j\<lparr>j_send_cycle := k\<rparr>)"
      using rec[OF c(1)] unfolding on_record_def by blast
    have "cl_idempotency_key c = ?key k" using jk(1,3) c(2) by simp
    then show "cl_idempotency_key c \<in> ?key ` {k. k < nat ?D}" using jk(2) by auto
  qed
  then have "card (cl_idempotency_key ` {c \<in> set (s_requests x). cl_id c = i}) \<le> card (?key ` {k. k < nat ?D})"
    by (intro card_mono) auto
  also have "\<dots> \<le> nat ?D" using card_image_le[of "{k. k < nat ?D}" ?key] by simp
  finally show ?thesis using ids inj assms(1) by (auto simp: good_settings_def)
qed

lemma sys_run_evolves:
  assumes "good_settings (o_settings o')" "sys_inv o' x" "sys_run o' ls x = Some y"
  shows "evolves (o_settings o') UNIV (s_db x) (s_db y)"
  using assms(2,3)
proof (induction ls arbitrary: x)
  case Nil
  then show ?case by (simp add: sys_inv_def evolves_same)
next
  case (Cons lab ls)
  obtain x' where x': "sys_do o' lab x = Some x'" "sys_run o' ls x' = Some y"
    using Cons.prems(2) by (auto split: option.splits)
  have "evolves (o_settings o') UNIV (s_db x) (s_db x')"
    using sys_do_evolves[OF x'(1)] Cons.prems(1) by (simp add: sys_inv_def)
  moreover have "sys_inv o' x'"
    using sys_step_inv[OF assms(1) _ Cons.prems(1)] x'(1) by (simp add: sys_step_def)
  ultimately show ?case using Cons.IH x'(2) evolves_trans by blast
qed

text \<open>
  C6: No job is lost and no verdict is changed.  Whatever the service does after a state it can
  reach, every job of that state is still there, for the same rule, user, comment and message,
  its send cycle never decreases, and once it is delivered or failed it stays so, with the same
  number of attempts.
\<close>

theorem jobs_are_never_lost:
  assumes "good_settings (o_settings o')" and "sys_run o' ls (sys_start o' t) = Some x"
    and "sys_run o' ls' x = Some y" and "get_job i (s_db x) = Some j"
  shows "\<exists>j'. get_job i (s_db y) = Some j' \<and> same_identity j j' \<and> j_send_cycle j \<le> j_send_cycle j'
     \<and> (j_status j \<in> {DELIVERED, FAILED} \<longrightarrow> j_status j' = j_status j \<and> j_attempts j' = j_attempts j)"
proof -
  from sys_run_evolves[OF assms(1) sys_run_inv[OF assms(1,2)] assms(3)] assms(4)
  obtain j' where j': "get_job i (s_db y) = Some j'" "same_identity j j'"
    "path (o_settings o') UNIV (abs_job j) (abs_job j')"
    unfolding evolves_def job_path_def by blast
  then show ?thesis using path_cycle path_final unfolding abs_job_def by fastforce
qed

text \<open>
  C9: The whole service keeps the send limit.  Every request used up a slot of its own, and as
  long as the clock did not run backwards and the log of sends could be written and read, no
  window of the configured length holds more than \<open>max_calls\<close> slots, restarts included.
\<close>

theorem service_keeps_send_limit:
  assumes "good_settings (o_settings o')" and "sys_run o' ls (sys_start o' t) = Some x"
    and "s_sane x"
  shows "length (s_requests x) \<le> length (s_grants x) \<and> sorted (s_grants x)
     \<and> window_count (send_rate_limit_window_seconds (o_settings o')) b (s_grants x)
         \<le> nat (send_rate_limit_max_calls (o_settings o'))"
  using sys_run_inv[OF assms(1,2)] assms(3)
  by (auto simp: sys_inv_def limiter_ok_def limiter_inv_def Let_def)

section \<open>A run of the service\<close>

text \<open>
  One rule.  A comment matches it; the first request meets a transport error, so the job waits
  for a retry; the comment is deleted, which cancels the job; the user comments again, which
  creates a second job; its request is accepted and delivered.
\<close>

definition comment_json :: "string \<Rightarrow> string \<Rightarrow> string \<Rightarrow> json" where
  "comment_json ev typ cmt = JObj [(''event_id'', JStr ev), (''event_type'', JStr typ),
     (''data'', JObj [(''comment_id'', JStr cmt), (''text'', JStr ''price?''),
        (''from'', JObj [(''user_id'', JStr ''u1''), (''username'', JStr ''ann'')])])]"

definition demo_loads :: "string \<Rightarrow> json res" where
  "demo_loads body =
     (if body = ''a'' then Inr (comment_json ''evt_1'' ''comment.created'' ''c1'')
      else if body = ''b'' then Inr (comment_json ''evt_2'' ''comment.deleted'' ''c1'')
      else if body = ''c'' then Inr (comment_json ''evt_3'' ''comment.created'' ''c2'')
      else Inl ValueError)"

definition demo :: surroundings where
  "demo = \<lparr>o_settings = keyed_settings\<lparr>verify_webhook_signature := False\<rparr>, o_hmac = hmac_example,
     o_loads = demo_loads, o_fromisoformat = iso_plain\<rparr>"

definition demo_accepted :: http_reply where
  "demo_accepted = Response \<lparr>hr_status_code = 202, hr_retry_after = None,
     hr_json = Some (JObj [(''dm_id'', JStr ''dm_1'')]), hr_text = []\<rparr>"

definition demo_first :: "sys_label list" where
  "demo_first = [START True 1 1 10, RULE ''r1'' 11 rule_body,
     DELIVERY None 12 ''a'' None, BATCH (\<lambda>_. NO_FAULT) 50 13,
     CLAIM 14, TURN True 2, SEND, RESPONSE (HTTPError ''ReadTimeout'' []) 0 15]"

definition demo_second :: "sys_label list" where
  "demo_second = [DELIVERY None 16 ''b'' None, BATCH (\<lambda>_. NO_FAULT) 50 17,
     CRASH, START True 3 3 18,
     DELIVERY None 18 ''c'' None, BATCH (\<lambda>_. NO_FAULT) 50 19,
     CLAIM 20, TURN True 4, SEND, RESPONSE demo_accepted 0 21,
     POLL 2 (JStr ''delivered'') 0 22]"

definition demo_middle :: sys where
  "demo_middle = the (sys_run demo demo_first (sys_start demo 0))"

definition demo_end :: sys where
  "demo_end = the (sys_run demo demo_second demo_middle)"

lemma sys_run_append: "sys_run o' (ls @ ls') x = (case sys_run o' ls x of None \<Rightarrow> None | Some y \<Rightarrow> sys_run o' ls' y)"
  by (induction ls arbitrary: x) (auto split: option.splits)

lemma demo_good: "good_settings (o_settings demo)"
  by (simp add: demo_def good_settings_def keyed_settings_def default_settings_simps)

lemma demo_evaluates:
  "case sys_run demo demo_first (sys_start demo 0) of None \<Rightarrow> False
   | Some m \<Rightarrow> map j_status (d_jobs (s_db m)) = [RETRY_WAIT]
       \<and> map j_user_id (d_jobs (s_db m)) = [''u1''] \<and> map j_id (d_jobs (s_db m)) = [1]
       \<and> (case sys_run demo demo_second m of None \<Rightarrow> False
          | Some z \<Rightarrow> map j_status (d_jobs (s_db z)) = [CANCELLED, DELIVERED]
              \<and> map cl_idempotency_key (s_requests z) = [''dm-job-2'', ''dm-job-1'']
              \<and> s_sane z \<and> s_grants z = [2, 4])"
  by code_simp

lemma demo_runs:
  "sys_run demo demo_first (sys_start demo 0) = Some demo_middle"
  "sys_run demo demo_second demo_middle = Some demo_end"
  "sys_run demo (demo_first @ demo_second) (sys_start demo 0) = Some demo_end"
proof -
  show a: "sys_run demo demo_first (sys_start demo 0) = Some demo_middle"
    using demo_evaluates by (auto simp: demo_middle_def split: option.splits)
  show b: "sys_run demo demo_second demo_middle = Some demo_end"
    using demo_evaluates unfolding a by (auto simp: demo_end_def split: option.splits)
  show "sys_run demo (demo_first @ demo_second) (sys_start demo 0) = Some demo_end"
    by (simp add: sys_run_append a b)
qed

lemma demo_facts:
  "map j_status (d_jobs (s_db demo_middle)) = [RETRY_WAIT]"
  "map j_user_id (d_jobs (s_db demo_middle)) = [''u1'']"
  "map j_id (d_jobs (s_db demo_middle)) = [1]"
  "map cl_idempotency_key (s_requests demo_end) = [''dm-job-2'', ''dm-job-1'']"
  "s_sane demo_end" "s_grants demo_end = [2, 4]"
  using demo_evaluates by (simp_all add: demo_runs)

lemma demo_job:
  "\<exists>j. get_job 1 (s_db demo_middle) = Some j \<and> j_status j = RETRY_WAIT \<and> j_user_id j = ''u1''"
  using demo_facts(1-3) by (auto simp: get_job_def find_by_def Cons_eq_map_conv map_eq_Cons_conv)

interpretation demo_service: invariant_system "\<lambda>x. x = sys_start demo 0" "sys_step demo" "sys_inv demo"
  by (rule service_system[OF demo_good])

theorem one_live_job_per_user_witness:
  "card {j \<in> set (d_jobs (s_db demo_end)). j_status j \<noteq> CANCELLED \<and> j_rule_id j = ''r1'' \<and> j_user_id j = ''u1''} \<le> 1"
  using one_live_job_per_user[OF demo_good demo_runs(3)] by blast


theorem requests_per_job_bounded_witness:
  "inj_on cl_idempotency_key (set (s_requests demo_end))
   \<and> map cl_idempotency_key (s_requests demo_end) = [''dm-job-2'', ''dm-job-1'']"
  using requests_per_job_bounded[OF demo_good demo_runs(3)] demo_facts(4) by simp

theorem jobs_are_never_lost_witness:
  "\<exists>j'. get_job 1 (s_db demo_end) = Some j' \<and> j_user_id j' = ''u1''"
proof -
  obtain j where j: "get_job 1 (s_db demo_middle) = Some j" "j_user_id j = ''u1''"
    using demo_job by blast
  from jobs_are_never_lost[OF demo_good demo_runs(1,2) j(1)] j(2) show ?thesis
    by (auto simp: same_identity_def)
qed

theorem service_keeps_send_limit_witness:
  "window_count (send_rate_limit_window_seconds (o_settings demo)) 4 (s_grants demo_end)
     \<le> nat (send_rate_limit_max_calls (o_settings demo)) \<and> s_grants demo_end = [2, 4]"
  using service_keeps_send_limit[OF demo_good demo_runs(3) demo_facts(5)] demo_facts(6) by simp

section \<open>A deleted comment can cost a second message\<close>

text \<open>
  C37: The one way around the promise of one message per rule and user.  A job that waits for a
  retry may already have reached the user (its request ended in a transport error, or its
  message was reported undelivered); deleting the comment cancels it and frees the slot, and
  the next matching comment of the same user creates another job, whose idempotency key
  differs, so that no server can tell that it repeats the first.
\<close>

theorem retry_then_delete_messages_again:
  assumes "db_ok d" and "get_job i d = Some j" "j_status j = RETRY_WAIT" "j_comment_id j = Some c" "c \<noteq> []"
    and "e_event_type e1 = event_comment_deleted" "e_comment_id e1 = Some c"
    and "e_event_type e2 = event_comment_created" "e_user_id e2 = Some (j_user_id j)" "j_user_id j \<noteq> []"
    and "e_comment_id e2 = Some c2" "\<not> comment_is_deleted c2 d" "c2 \<noteq> c"
    and "r \<in> set (find_matching_rules d (e_text e2))" "r_id r = j_rule_id j"
  shows "\<exists>k j'. get_job i (process_event e2 t2 (process_event e1 t1 d)) = Some j'
     \<and> j_status j' = CANCELLED \<and> k \<in> set (d_jobs (process_event e2 t2 (process_event e1 t1 d)))
     \<and> j_status k \<noteq> CANCELLED \<and> slot k = slot j \<and> idempotency_key k \<noteq> idempotency_key j"
proof -
  let ?d1 = "process_event e1 t1 d" and ?d2 = "process_event e2 t2 (process_event e1 t1 d)"
  have jobs1: "d_jobs ?d1 = update_where (cancellable c)
      (\<lambda>j. j\<lparr>j_status := CANCELLED, j_updated_at := t1\<rparr>) (d_jobs d)"
    by (rule process_event_deleted_facts(3)[OF assms(6,7,5)])
  have can: "cancellable c j" using assms(3,4) by (simp add: cancellable_def cancellable_job_statuses_def)
  let ?j = "j\<lparr>j_status := CANCELLED, j_updated_at := t1\<rparr>"
  have j1: "get_job i ?d1 = Some ?j"
    using assms(2) can by (simp add: get_job_def jobs1 find_by_update_where)
  have deleted: "\<not> comment_is_deleted c2 ?d1"
    using assms(12,13) unfolding process_event_deleted[OF assms(6,7,5)]
    by (auto simp: comment_is_deleted_def cancel_jobs_for_comment_def finish_event_def)
  have rules: "find_matching_rules ?d1 (e_text e2) = find_matching_rules d (e_text e2)"
  proof -
    have a: "active_rules ?d1 = active_rules d" by (simp add: active_rules_def process_event_frame)
    show ?thesis unfolding find_matching_rules_def a by (rule refl)
  qed
  let ?rs = "find_matching_rules ?d1 (e_text e2)"
  let ?dc = "create_jobs ?rs (j_user_id j) (Some c2) t2 ?d1"
  have "\<not> (given (e_comment_id e2) \<and> comment_is_deleted (the (e_comment_id e2)) ?d1)"
    using deleted assms(11) by simp
  from process_event_created[OF assms(8,9,10) this]
  have d2: "d_jobs ?d2 = d_jobs ?dc" by (simp add: finish_event_def assms(11))
  have ok2: "db_ok ?d2" by (intro process_event_db_ok assms(1))
  have "slot_taken (r_id r) (j_user_id j) ?dc"
    using create_jobs_accounting(2)[OF find_matching_rules_subset] assms(14) rules by metis
  then obtain k where k: "k \<in> set (d_jobs ?d2)" "holds_slot k" "slot k = slot j"
    using assms(15) by (auto simp: slot_taken_def d2 slot_def)
  have "?j \<in> set (d_jobs ?d2)"
    using get_job_SomeD[OF j1] create_jobs_prefix[of ?d1] unfolding d2 by (meson set_mono_prefix subsetD)
  then have j2: "get_job i ?d2 = Some ?j"
    using get_job_SomeD[OF assms(2)] by (simp add: get_job_iff[OF ok2])
  have "j_id k \<noteq> i"
  proof
    assume "j_id k = i"
    then have "get_job i ?d2 = Some k" using k(1) by (simp add: get_job_iff[OF ok2])
    with j2 k(2) show False by (simp add: holds_slot_def)
  qed
  then have "idempotency_key k \<noteq> idempotency_key j"
    using get_job_SomeD[OF assms(2)] by (simp add: idempotency_key_eq_iff)
  with j2 k show ?thesis
    by (intro exI[of _ k] exI[of _ ?j]) (auto simp: holds_slot_def)
qed

definition event3 :: event where
  "event3 = event1\<lparr>e_id := 3, e_event_id := ''evt_3'', e_comment_id := Some ''c2''\<rparr>"

definition waiting_db :: db where
  "waiting_db = db1\<lparr>d_jobs := [sending_job\<lparr>j_status := RETRY_WAIT, j_attempts := 1\<rparr>]\<rparr>"

theorem retry_then_delete_messages_again_witness:
  "\<exists>k. k \<in> set (d_jobs (process_event event3 7 (process_event event2 6 waiting_db)))
     \<and> j_status k \<noteq> CANCELLED \<and> idempotency_key k \<noteq> ''dm-job-1''"
proof -
  let ?j = "sending_job\<lparr>j_status := RETRY_WAIT, j_attempts := 1\<rparr>"
  have ok: "db_ok waiting_db"
    using sending_db_ok by (simp add: waiting_db_def sending_db_def db_ok_def uq_dm_jobs_rule_user_def
        uq_events_event_id_def unique_index_def)
  have j: "get_job 1 waiting_db = Some ?j" "j_status ?j = RETRY_WAIT" "j_comment_id ?j = Some ''c1''"
    "(''c1'' :: string) \<noteq> []" "j_user_id ?j \<noteq> []"
    by (simp_all add: waiting_db_def get_job_def find_by_def sending_job_def new_job_def)
  have e: "e_event_type event2 = event_comment_deleted" "e_comment_id event2 = Some ''c1''"
    "e_event_type event3 = event_comment_created" "e_user_id event3 = Some (j_user_id ?j)"
    "e_comment_id event3 = Some ''c2''" "\<not> comment_is_deleted ''c2'' waiting_db" "(''c2'' :: string) \<noteq> ''c1''"
    by (simp_all add: event3_def event_example_defs sending_job_def new_job_def comment_is_deleted_def
        waiting_db_def db1_def empty_db_def)
  have r: "rule1 \<in> set (find_matching_rules waiting_db (e_text event3))" by code_simp
  have rid: "r_id rule1 = j_rule_id ?j" by (simp add: sending_job_def)
  have key: "idempotency_key ?j = ''dm-job-1''" by code_simp
  from retry_then_delete_messages_again[OF ok j(1-4) e(1-4) j(5) e(5-7) r rid, of 7 6] key
  show ?thesis by auto
qed

end
