(* ===== verification/Accounting.thy ===== *)
theory Accounting
  imports System
begin

text \<open>
  The numbers of \<^verbatim>\<open>GET /stats\<close> over any run of the service in which rules are not changed and
  no comment is deleted: each match of a processed event is either the one job of its rule and
  user or one blocked duplicate, whatever happened in between.  \<open>quiet\<close> describes the
  transactions that neither finish events nor create jobs, \<open>accounted\<close> is the invariant.
\<close>

section \<open>What matches\<close>

definition finished :: "event \<Rightarrow> bool" where
  "finished e \<longleftrightarrow> e_status e \<in> {PROCESSED, IGNORED}"

definition event_matches :: "db \<Rightarrow> event \<Rightarrow> rule list" where
  "event_matches d e = (if e_event_type e = event_comment_created \<and> given (e_user_id e)
     then find_matching_rules d (e_text e) else [])"

definition event_pairs :: "db \<Rightarrow> event \<Rightarrow> (string \<times> string) set" where
  "event_pairs d e = (\<lambda>r. (r_id r, the (e_user_id e))) ` set (event_matches d e)"

definition matched_pairs :: "db \<Rightarrow> event list \<Rightarrow> (string \<times> string) set" where
  "matched_pairs d es = (\<Union>e \<in> set es. event_pairs d e)"

definition match_total :: "db \<Rightarrow> event list \<Rightarrow> int" where
  "match_total d es = sum_list (map (\<lambda>e. int (length (event_matches d e))) es)"

definition accounted :: "int \<Rightarrow> db \<Rightarrow> bool" where
  "accounted base d \<longleftrightarrow> (let es = filter finished (d_events d) in
     d_deleted d = [] \<and> (\<forall>j \<in> set (d_jobs d). holds_slot j)
     \<and> slot ` set (d_jobs d) = matched_pairs d es
     \<and> int (length (d_jobs d)) + get_counter DUPLICATES_BLOCKED d = base + match_total d es)"

definition no_deletions :: "db \<Rightarrow> bool" where
  "no_deletions d \<longleftrightarrow> event_comment_deleted \<notin> e_event_type ` set (d_events d)"

lemma finite_pairs [simp]: "finite (matched_pairs d es)"
  by (simp add: matched_pairs_def event_pairs_def)

lemma matches_rules_cong: "d_rules d = d_rules d' \<Longrightarrow> event_matches d e = event_matches d' e"
  unfolding event_matches_def using find_matching_rules_rules_cong by metis

lemma matched_cong:
  assumes "d_rules d = d_rules d'"
  shows "matched_pairs d es = matched_pairs d' es" "match_total d es = match_total d' es"
  using matches_rules_cong[OF assms] by (simp_all add: matched_pairs_def event_pairs_def match_total_def)

text \<open>What the invariant says about the statistics.\<close>

lemma accounted_stats:
  assumes "db_ok d" "accounted base d"
  shows "sent (compute_stats d) + failed (compute_stats d) + queued (compute_stats d)
      = int (card (matched_pairs d (filter finished (d_events d))))
    \<and> duplicates_blocked (compute_stats d)
      = base + match_total d (filter finished (d_events d))
        - int (card (matched_pairs d (filter finished (d_events d))))"
proof -
  have live: "\<forall>j \<in> set (d_jobs d). holds_slot j"
    and slots: "slot ` set (d_jobs d) = matched_pairs d (filter finished (d_events d))"
    and total: "int (length (d_jobs d)) + get_counter DUPLICATES_BLOCKED d
      = base + match_total d (filter finished (d_events d))"
    using assms(2) by (simp_all add: accounted_def Let_def)
  have all: "filter holds_slot (d_jobs d) = d_jobs d" using live by (simp add: filter_id_conv)
  have "distinct (map slot (d_jobs d))"
    using assms(1) all by (simp add: db_ok_def uq_dm_jobs_rule_user_def unique_index_def)
  then have "length (d_jobs d) = card (slot ` set (d_jobs d))"
    by (metis distinct_card length_map list.set_map)
  then show ?thesis
    using compute_stats_partition[of d] all slots total by (simp add: compute_stats_def)
qed

section \<open>Quiet transactions\<close>

definition quiet :: "db \<Rightarrow> db \<Rightarrow> bool" where
  "quiet d d' \<longleftrightarrow> map slot (d_jobs d') = map slot (d_jobs d)
     \<and> ((\<forall>j \<in> set (d_jobs d). holds_slot j) \<longrightarrow> (\<forall>j \<in> set (d_jobs d'). holds_slot j))
     \<and> d_rules d' = d_rules d \<and> d_deleted d' = d_deleted d
     \<and> get_counter DUPLICATES_BLOCKED d' = get_counter DUPLICATES_BLOCKED d
     \<and> filter finished (d_events d') = filter finished (d_events d)
     \<and> e_event_type ` set (d_events d) \<subseteq> e_event_type ` set (d_events d')"

lemma quiet_refl [simp]: "quiet d d"
  by (simp add: quiet_def)

lemma quiet_trans:
  assumes "quiet d d'" and "quiet d' d''" shows "quiet d d''"
proof -
  note facts = assms[unfolded quiet_def]
  show ?thesis unfolding quiet_def
  proof (intro conjI)
    show "map slot (d_jobs d'') = map slot (d_jobs d)" "d_rules d'' = d_rules d" "d_deleted d'' = d_deleted d"
      "get_counter DUPLICATES_BLOCKED d'' = get_counter DUPLICATES_BLOCKED d"
      "filter finished (d_events d'') = filter finished (d_events d)"
      using facts by (blast intro: trans)+
    show "(\<forall>j \<in> set (d_jobs d). holds_slot j) \<longrightarrow> (\<forall>j \<in> set (d_jobs d''). holds_slot j)"
      using facts by iprover
    show "e_event_type ` set (d_events d) \<subseteq> e_event_type ` set (d_events d'')"
      using facts by (iprover intro: subset_trans)
  qed
qed

lemma quiet_accounted: "quiet d d' \<Longrightarrow> accounted base d \<Longrightarrow> accounted base d'"
proof -
  assume q: "quiet d d'" and a: "accounted base d"
  have "slot ` set (d_jobs d') = slot ` set (d_jobs d)" "length (d_jobs d') = length (d_jobs d)"
    using q by (metis quiet_def list.set_map, metis quiet_def length_map)
  moreover have "d_rules d' = d_rules d" using q by (simp add: quiet_def)
  ultimately show "accounted base d'"
    using q a matched_cong[of d' d] by (simp add: quiet_def accounted_def Let_def)
qed

lemma quiet_jobs:
  "map slot js = map slot (d_jobs d) \<Longrightarrow> (\<forall>j \<in> set (d_jobs d). holds_slot j) \<longrightarrow> (\<forall>j \<in> set js. holds_slot j)
   \<Longrightarrow> quiet d (d\<lparr>d_jobs := js\<rparr>)"
  by (simp add: quiet_def)

lemma quiet_replace:
  assumes "get_job (j_id j') d = Some j" "slot j' = slot j" "j_status j' \<noteq> CANCELLED" "db_ok d"
  shows "quiet d (d\<lparr>d_jobs := replace_by j_id j' (d_jobs d)\<rparr>)"
proof (rule quiet_jobs)
  have "slot (if j_id x = j_id j' then j' else x) = slot x" if "x \<in> set (d_jobs d)" for x
    using that assms(1,2,4) by (auto simp: get_job_iff db_ok_def distinct_map inj_on_def)
  then show "map slot (replace_by j_id j' (d_jobs d)) = map slot (d_jobs d)"
    by (auto simp: replace_by_def update_where_def intro!: map_cong)
  show "(\<forall>j \<in> set (d_jobs d). holds_slot j) \<longrightarrow> (\<forall>j \<in> set (replace_by j_id j' (d_jobs d)). holds_slot j)"
    using assms(3) by (auto simp: holds_slot_def dest: set_replace_by)
qed

lemma quiet_release:
  "(\<And>j. P j \<Longrightarrow> j_status j = SENDING) \<Longrightarrow>
   quiet d (d\<lparr>d_jobs := update_where P (\<lambda>j. j\<lparr>j_status := QUEUED, j_updated_at := now\<rparr>) (d_jobs d)\<rparr>)"
  by (rule quiet_jobs) (auto simp: update_where_def slot_def holds_slot_def)

lemma quiet_events:
  assumes "\<And>e. P e \<Longrightarrow> \<not> finished e \<and> \<not> finished (f e) \<and> e_event_type (f e) = e_event_type e"
  shows "quiet d (d\<lparr>d_events := update_where P f (d_events d)\<rparr>)"
proof -
  have "filter finished (update_where P f es) = filter finished es" for es
    using assms by (induction es) (auto simp: update_where_Cons)
  moreover have "e_event_type ` set (update_where P f es) = e_event_type ` set es" for es
    using assms by (induction es) (auto simp: update_where_Cons)
  ultimately show ?thesis by (simp add: quiet_def)
qed

lemma quiet_log: "quiet d (d\<lparr>d_send_log := xs\<rparr>)"
  by (simp add: quiet_def)

lemma quiet_seed: "quiet d (seed_counters d)"
  by (simp add: quiet_def)

section \<open>The quiet operations\<close>

lemma webhook_quiet:
  assumes "\<not> count_duplicate_events_as_blocked s"
  shows "quiet d (fst (receive_webhook hmac loads parse s storage now raw hdr d))"
proof (cases rule: receive_webhook_cases[of hmac loads parse s storage now raw hdr d])
  case (accepted v p d' r)
  obtain ts where ts: "parse_iso8601 parse (we_sent_at p) = Inr ts"
    using accepted(6) by (auto simp: ingest_event_def split: sum.splits)
  have "quiet d d'"
  proof (cases rule: ingest_event_cases[OF ts, of d s now])
    case 1
    then show ?thesis
      using accepted(6) assms by (auto simp: quiet_def handle_duplicate_event_counters)
  next
    case (2 pk)
    then show ?thesis
      using accepted(6) by (auto simp: quiet_def finished_def new_event_def Let_def)
  qed
  with accepted(7) show ?thesis by simp
qed simp

lemma dm_claim_quiet:
  assumes "db_ok d" shows "quiet d (fst (dm_claim now d))"
proof (cases "snd (claim_next_job now d)")
  case None
  then have "fst (dm_claim now d) = d"
    using dm_claim_none[OF assms, of now] by (cases "dm_claim now d") (simp add: dm_claim_frame)
  then show ?thesis by simp
next
  case (Some k)
  then have k: "claim_next_job now d = (fst (dm_claim now d), Some k)"
    by (cases "claim_next_job now d") (simp add: dm_claim_frame)
  from claim_next_job_step[OF assms, of now] k obtain j where
    j: "j \<in> set (d_jobs d)" "k = j\<lparr>j_status := SENDING, j_updated_at := now\<rparr>"
      "fst (dm_claim now d) = d\<lparr>d_jobs := replace_by j_id k (d_jobs d)\<rparr>" by auto
  show ?thesis unfolding j(3)
    by (rule quiet_replace[OF _ _ _ assms, of _ j]) (use j(1,2) assms in \<open>auto simp: get_job_iff slot_def\<close>)
qed

lemma acquire_once_quiet: "quiet d (snd (fst (acquire_once ok t (l, d))))"
  by (cases rule: acquire_once_cases[of t l ok d])
    (auto simp: persist_def record_attempt_def quiet_log)

lemma dm_apply_quiet:
  assumes "db_ok d" shows "quiet d (fst (dm_apply s u now i r d))"
proof (cases rule: dm_apply_cases[of i d s u now r])
  case (moved j j')
  have "slot j' = slot j" "j_status j' \<noteq> CANCELLED"
    using send_transition_identity[OF moved(2)] by auto
  with quiet_replace[OF _ _ _ assms, of j' j] moved show ?thesis by simp
qed simp_all

lemma release_claim_quiet:
  assumes "db_ok d" shows "quiet d (fst (release_claim now i d))"
proof (cases rule: release_claim_cases[OF assms, of now i])
  case (2 j j')
  have "j_id j' = i" "slot j' = slot j" "j_status j' \<noteq> CANCELLED"
    using get_job_SomeD[OF 2(1)] 2(3) by (simp_all add: slot_def)
  with quiet_replace[OF _ _ _ assms, of j' j] 2(1,5) show ?thesis by simp
qed simp

lemma reconcile_apply_quiet:
  assumes "db_ok d" shows "quiet d (fst (reconcile_apply s u now i status d))"
proof (cases rule: reconcile_apply_cases[OF assms, of i s u now status])
  case (4 j j')
  have "step_of s (abs_job j) (delivery_label status) (abs_job j')"
    using delivery_transition_step[OF 4(3,2)] by blast
  then have "j_status j' \<noteq> CANCELLED"
    using 4(2) by (auto simp: abs_job_def elim: job_step.cases)
  with quiet_replace[OF _ _ _ assms, of j' j] delivery_transition_identity[OF 4(3)] 4(1,4,5)
  show ?thesis by simp
qed simp_all

lemma requeue_quiet: "requeue_stale_sending q now d = Inr (d', n) \<Longrightarrow> quiet d d'"
  by (auto simp: requeue_stale_sending_def stale_def intro!: quiet_release split: sum.splits)

lemma manager_requeue_quiet: "quiet d (fst (manager_requeue_stale s now d))"
  by (cases "requeue_stale_sending (sending_stale_seconds s) now d")
    (auto simp: manager_requeue_stale_def session_scope_def dest: requeue_quiet)

lemma recover_state_quiet: "quiet d (fst (recover_state now d))"
proof -
  let ?d = "fst (requeue_stuck_events (seed_counters d))"
  have "quiet (seed_counters d) ?d"
    unfolding requeue_stuck_events_def fst_conv by (rule quiet_events) (simp add: finished_def)
  from quiet_trans[OF quiet_seed this] have q: "quiet d ?d" .
  show ?thesis
  proof (cases "requeue_stale_sending 0 now ?d")
    case (Inl e)
    then show ?thesis by (simp add: recover_state_def session_scope_def Let_def)
  next
    case (Inr x)
    then have "quiet ?d (fst x)" using requeue_quiet[of 0 now ?d "fst x" "snd x"] by simp
    with quiet_trans[OF q] Inr show ?thesis
      by (auto simp: recover_state_def session_scope_def Let_def split_beta)
  qed
qed

lemma lifespan_start_quiet: "quiet d (snd (fst (lifespan_start s ok c1 c2 now d)))"
proof -
  have warm: "quiet d1 (snd (warm_start ok c1 c2 (l, d1)))" for d1 l
    by (auto simp: warm_start_def Let_def prune_def quiet_log)
  have start: "quiet d1 (snd (fst (manager_start s ok c1 c2 now d1)))" for d1
  proof (cases "recover_state now d1")
    case (Pair d2 z)
    then have "quiet d1 d2" using recover_state_quiet[of d1 now] by simp
    with quiet_trans[OF this warm] Pair show ?thesis by (cases z) (auto simp: manager_start_def)
  qed
  have "quiet d (snd (fst (manager_start s ok c1 c2 now (seed_counters d))))"
    by (rule quiet_trans[OF quiet_seed start])
  with quiet_seed[of d] show ?thesis
    by (auto simp: lifespan_start_def session_scope_def Let_def split: prod.splits)
qed

section \<open>Processing\<close>

definition same_content :: "event \<Rightarrow> event \<Rightarrow> bool" where
  "same_content e e' \<longleftrightarrow> e_event_type e' = e_event_type e \<and> e_user_id e' = e_user_id e \<and> e_text e' = e_text e"

lemma same_content_matches:
  assumes "same_content e e'"
  shows "event_matches d e' = event_matches d e" "event_pairs d e' = event_pairs d e"
  using assms by (simp_all add: same_content_def event_matches_def event_pairs_def)

text \<open>One more finished event.\<close>

lemma finish_one:
  assumes "distinct (map e_id es)" "x \<in> set es" "\<not> finished x"
    and "f x = x'" "finished x'" "same_content x x'"
  shows "matched_pairs d (filter finished (update_where (\<lambda>y. e_id y = e_id x) f es))
      = matched_pairs d (filter finished es) \<union> event_pairs d x"
    and "match_total d (filter finished (update_where (\<lambda>y. e_id y = e_id x) f es))
      = match_total d (filter finished es) + int (length (event_matches d x))"
  using assms(1,2)
proof (induction es)
  case (Cons y es)
  { case 1
    show ?case
    proof (cases "y = x")
      case True
      then have "update_where (\<lambda>y. e_id y = e_id x) f es = es"
        using 1(1) by (intro update_where_none) (simp, metis image_eqI)
      with True assms(3-6) show ?thesis
        by (auto simp: update_where_Cons matched_pairs_def same_content_matches(2))
    next
      case False
      then have "x \<in> set es" "distinct (map e_id es)" "e_id y \<noteq> e_id x" using 1 by auto
      with Cons.IH(1) show ?thesis by (auto simp: update_where_Cons matched_pairs_def)
    qed
  next
    case 2
    show ?case
    proof (cases "y = x")
      case True
      then have "update_where (\<lambda>y. e_id y = e_id x) f es = es"
        using 2(1) by (intro update_where_none) (simp, metis image_eqI)
      with True assms(3-6) show ?thesis
        by (auto simp: update_where_Cons match_total_def same_content_matches(1))
    next
      case False
      then have "x \<in> set es" "distinct (map e_id es)" "e_id y \<noteq> e_id x" using 2 by auto
      with Cons.IH(2) show ?thesis by (auto simp: update_where_Cons match_total_def)
    qed }
qed simp_all

lemma create_jobs_slots:
  assumes "set rs \<subseteq> set (d_rules d)" "\<forall>j \<in> set (d_jobs d). holds_slot j"
  shows "slot ` set (d_jobs (create_jobs rs u c now d))
      = slot ` set (d_jobs d) \<union> (\<lambda>r. (r_id r, u)) ` set rs"
    and "\<forall>j \<in> set (d_jobs (create_jobs rs u c now d)). holds_slot j"
proof -
  note acc = create_jobs_accounting[OF assms(1), where u = u and c = c and now = now]
  have old: "set (d_jobs d) \<subseteq> set (d_jobs (create_jobs rs u c now d))"
    using create_jobs_prefix set_mono_prefix by blast
  have taken: "\<exists>k \<in> set (d_jobs (create_jobs rs u c now d)). slot k = (r_id r, u)" if "r \<in> set rs" for r
    using acc(2)[OF that] by (auto simp: slot_taken_def)
  have new: "j \<in> set (d_jobs d) \<or> j_status j = QUEUED \<and> slot j \<in> (\<lambda>r. (r_id r, u)) ` set rs"
    if "j \<in> set (d_jobs (create_jobs rs u c now d))" for j
    using acc(3)[OF that] by (auto simp: slot_def)
  show "slot ` set (d_jobs (create_jobs rs u c now d))
      = slot ` set (d_jobs d) \<union> (\<lambda>r. (r_id r, u)) ` set rs"
    (is "?new = ?old")
  proof
    show "?new \<subseteq> ?old" using new by blast
    have "(r_id r, u) \<in> ?new" if "r \<in> set rs" for r using taken[OF that] by (metis imageI)
    then show "?old \<subseteq> ?new" using old by auto
  qed
  show "\<forall>j \<in> set (d_jobs (create_jobs rs u c now d)). holds_slot j"
    using new assms(2) unfolding holds_slot_def by (metis job_status.distinct(11))
qed

lemma process_event_accounted:
  assumes "db_ok d" "accounted base d" "no_deletions d"
    and "get_event (e_id e) d = Some x" "\<not> finished x" "same_content x e"
  shows "accounted base (process_event e now d)"
proof -
  have x: "x \<in> set (d_events d)" "e_id x = e_id e" using get_event_SomeD[OF assms(4)] by auto
  have ids: "distinct (map e_id (d_events d))" using assms(1) by (simp add: db_ok_def)
  have type: "e_event_type e \<noteq> event_comment_deleted"
    using assms(3,6) x(1) by (auto simp: no_deletions_def same_content_def image_iff)
  note m = same_content_matches[OF assms(6), of d]
  note acc = assms(2)[unfolded accounted_def Let_def]
  have events: "matched_pairs d (filter finished (d_events (finish_event e st now d1)))
      = matched_pairs d (filter finished (d_events d)) \<union> event_pairs d e
    \<and> match_total d (filter finished (d_events (finish_event e st now d1)))
      = match_total d (filter finished (d_events d)) + int (length (event_matches d e))"
    if "d_events d1 = d_events d" "st \<in> {PROCESSED, IGNORED}" for st d1
    unfolding finish_event_def m x(2)[symmetric]
    using finish_one[OF ids x(1) assms(5) refl, of "\<lambda>x. x\<lparr>e_status := st, e_processed_at := Some now\<rparr>"] that
    by (auto simp: finished_def same_content_def)
  show ?thesis
  proof (cases "e_event_type e = event_comment_created \<and> given (e_user_id e)")
    case False
    then have none: "event_matches d e = []" by (auto simp: event_matches_def)
    have eq: "process_event e now d = finish_event e IGNORED now d"
      using False type by (auto simp: process_event_def process_comment_created_def)
    have "d_rules (finish_event e IGNORED now d) = d_rules d" by simp
    from matched_cong[OF this] events[OF refl, of IGNORED] none acc show ?thesis
      unfolding eq accounted_def Let_def by (simp add: event_pairs_def)
  next
    case True
    then obtain u where u: "e_user_id e = Some u" "u \<noteq> []" by (auto simp: given_iff)
    have nodel: "\<not> (given (e_comment_id e) \<and> comment_is_deleted (the (e_comment_id e)) d)"
      using acc by (simp add: comment_is_deleted_def)
    let ?rs = "find_matching_rules d (e_text e)"
    let ?d = "create_jobs ?rs u (e_comment_id e) now d"
    have rs: "event_matches d e = ?rs" "event_pairs d e = (\<lambda>r. (r_id r, u)) ` set ?rs"
      using True u by (simp_all add: event_matches_def event_pairs_def)
    have eq: "process_event e now d = finish_event e PROCESSED now ?d"
      using process_event_created[OF _ u nodel] True by simp
    have sub: "set ?rs \<subseteq> set (d_rules d)" by (rule find_matching_rules_subset)
    have live: "\<forall>j \<in> set (d_jobs d). holds_slot j" using acc by simp
    note new = create_jobs_slots[OF sub live, of u "e_comment_id e" now]
      create_jobs_accounting(1)[OF sub, of u "e_comment_id e" now]
    have "d_rules (finish_event e PROCESSED now ?d) = d_rules d" by simp
    from matched_cong[OF this] events[of ?d PROCESSED] new acc rs show ?thesis
      unfolding eq accounted_def Let_def by auto
  qed
qed

lemma types_update_where:
  "(\<And>e. e_event_type (f e) = e_event_type e) \<Longrightarrow>
   e_event_type ` set (update_where P f es) = e_event_type ` set es"
  by (induction es) (simp_all add: update_where_Cons)

lemma process_event_types:
  "e_event_type ` set (d_events (process_event e now d)) = e_event_type ` set (d_events d)"
proof -
  obtain st where "d_events (process_event e now d) = update_where (\<lambda>x. e_id x = e_id e)
     (\<lambda>x. x\<lparr>e_status := st, e_processed_at := Some now\<rparr>) (d_events d)"
    using process_event_frame(3) by blast
  then show ?thesis by (simp add: types_update_where)
qed

definition loaded :: "db \<Rightarrow> event list \<Rightarrow> bool" where
  "loaded d es \<longleftrightarrow> distinct (map e_id es)
     \<and> (\<forall>e \<in> set es. \<exists>x. get_event (e_id e) d = Some x \<and> \<not> finished x \<and> same_content x e)"

lemma process_loop_accounted:
  assumes "db_ok d" "accounted base d" "no_deletions d" "loaded d es"
  shows "accounted base (fst (process_loop faults es now h d))
    \<and> e_event_type ` set (d_events (fst (process_loop faults es now h d))) = e_event_type ` set (d_events d)"
  using assms
proof (induction es arbitrary: d h)
  case (Cons e es)
  obtain x where x: "get_event (e_id e) d = Some x" "\<not> finished x" "same_content x e"
    using Cons.prems(4) by (auto simp: loaded_def)
  have rest: "loaded d' es" if "\<And>i. i \<noteq> e_id e \<Longrightarrow> get_event i d' = get_event i d" for d'
    using Cons.prems(4) that unfolding loaded_def by (metis (no_types, lifting) distinct.simps(2)
        image_eqI list.set_intros(2) list.set_map list.simps(9))
  have same: "map_option (\<lambda>x. if e_id x = e_id e then g x else x) (get_event i d) = get_event i d"
    if "i \<noteq> e_id e" for i g
    using that by (cases "get_event i d") (auto dest: get_event_SomeD)
  let ?p = "process_event e now d" and ?r = "release_event (e_id e) d"
  have p: "db_ok ?p" "accounted base ?p" "no_deletions ?p" "loaded ?p es"
  proof -
    show "db_ok ?p" by (rule process_event_db_ok[OF Cons.prems(1)])
    show "accounted base ?p" by (rule process_event_accounted[OF Cons.prems(1-3) x])
    show "no_deletions ?p" using Cons.prems(3) by (simp add: no_deletions_def process_event_types)
    obtain st where st: "\<forall>i. get_event i ?p = map_option (\<lambda>x. if e_id x = e_id e
        then x\<lparr>e_status := st, e_processed_at := Some now\<rparr> else x) (get_event i d)"
      using get_event_process[of e now d] by blast
    show "loaded ?p es" by (rule rest) (subst st[rule_format], erule same)
  qed
  have q: "quiet d ?r"
  proof -
    have only: "y = x" if "y \<in> set (d_events d)" "e_id y = e_id e" for y
      using that x(1) Cons.prems(1) get_event_iff by (metis option.inject)
    have "map (\<lambda>y. if e_id y = e_id e then y\<lparr>e_status := RECEIVED\<rparr> else y) (d_events d)
        = map (\<lambda>y. if e_id y = e_id e \<and> \<not> finished y then y\<lparr>e_status := RECEIVED\<rparr> else y) (d_events d)"
      using only x(2) by (intro map_cong refl) auto
    then have "?r = d\<lparr>d_events := update_where (\<lambda>y. e_id y = e_id e \<and> \<not> finished y)
        (\<lambda>y. y\<lparr>e_status := RECEIVED\<rparr>) (d_events d)\<rparr>"
      by (simp add: release_event_def update_where_def)
    then show ?thesis by (simp only:) (rule quiet_events, simp add: finished_def)
  qed
  have r: "db_ok ?r" "accounted base ?r" "no_deletions ?r" "loaded ?r es"
    "e_event_type ` set (d_events ?r) = e_event_type ` set (d_events d)"
  proof -
    show "db_ok ?r" by (rule release_event_db_ok[OF Cons.prems(1)])
    show "accounted base ?r" by (rule quiet_accounted[OF q Cons.prems(2)])
    show t: "e_event_type ` set (d_events ?r) = e_event_type ` set (d_events d)"
      by (simp add: release_event_def types_update_where)
    then show "no_deletions ?r" using Cons.prems(3) by (simp add: no_deletions_def)
    show "loaded ?r es" by (rule rest) (simp add: get_event_release same)
  qed
  show ?case
    using Cons.IH[OF p] Cons.IH[OF r(1-4)] r(5) Cons.prems(2)
    by (auto simp: process_event_types split: event_fault.splits)
qed simp

lemma claim_event_quiet: "quiet d (claim_event i d)"
  unfolding claim_event_def by (rule quiet_events) (simp add: finished_def pending_event_def)

lemma claim_events_quiet: "quiet d (fst (claim_events ids d))"
  by (induction ids arbitrary: d) (auto simp: Let_def split_beta intro: quiet_trans[OF claim_event_quiet])

lemma claim_events_keeps:
  "get_event i d = Some e \<Longrightarrow> \<not> pending_event e \<Longrightarrow> get_event i (fst (claim_events ids d)) = Some e"
  by (induction ids arbitrary: d) (simp_all add: Let_def split_beta get_event_claim)

lemma claim_events_rows:
  "db_ok d \<Longrightarrow> e \<in> set (snd (claim_events ids d)) \<Longrightarrow>
   e_status e = PROCESSING \<and> get_event (e_id e) (fst (claim_events ids d)) = Some e"
proof (induction ids arbitrary: d)
  case (Cons i ids)
  let ?d1 = "claim_event i d"
  have ok: "db_ok ?d1" using Cons.prems(1) by (rule claim_event_db_ok)
  show ?case
  proof (cases "e \<in> set (snd (claim_events ids ?d1))")
    case True
    with Cons.IH[OF ok] show ?thesis by (simp add: Let_def split_beta)
  next
    case False
    then have hit: "count_where (\<lambda>e. e_id e = i \<and> pending_event e) (d_events d) \<noteq> 0"
      and e: "get_event i ?d1 = Some e"
      using Cons.prems(2) by (auto simp: Let_def split_beta split: if_splits option.splits)
    from hit obtain y where y: "y \<in> set (d_events d)" "e_id y = i" "pending_event y"
      by (auto simp: count_where_zero)
    then have "get_event i d = Some y" using Cons.prems(1) by (simp add: get_event_iff)
    then have "e = y\<lparr>e_status := PROCESSING\<rparr>" using e y by (simp add: get_event_claim)
    with claim_events_keeps[OF e, of ids] y(2) show ?thesis
      by (simp add: Let_def split_beta pending_event_def)
  qed
qed simp

lemma batch_accounted:
  assumes "db_ok d" "accounted base d" "no_deletions d"
  shows "accounted base (fst (process_pending_events faults limit now d))"
    and "e_event_type ` set (d_events (fst (process_pending_events faults limit now d)))
      = e_event_type ` set (d_events d)"
proof -
  let ?ids = "pending_ids limit d"
  obtain d1 es where c: "claim_events ?ids d = (d1, es)" by (cases "claim_events ?ids d")
  have types: "e_event_type ` set (d_events d1) = e_event_type ` set (d_events d)"
  proof -
    have "e_event_type ` set (d_events (fst (claim_events ids d))) = e_event_type ` set (d_events d)" for ids d
      by (induction ids arbitrary: d) (simp_all add: Let_def split_beta claim_event_def types_update_where)
    from this[of ?ids d] c show ?thesis by simp
  qed
  have "map e_id es = ?ids" and dist: "distinct ?ids"
    using claim_events_hit[OF assms(1) pending_ids_facts(1,2)[OF assms(1)], of limit] c
      pending_ids_facts(1)[OF assms(1)] by simp_all
  then have "distinct (map e_id es)" by simp
  moreover have "get_event (e_id e) d1 = Some e \<and> \<not> finished e" if "e \<in> set es" for e
    using claim_events_rows[OF assms(1), of e ?ids] c that by (simp add: finished_def)
  ultimately have l: "loaded d1 es" by (auto simp: loaded_def same_content_def)
  have ok: "db_ok d1" using claim_events_db_ok[OF assms(1), of ?ids] c by simp
  have acc: "accounted base d1"
    using quiet_accounted[OF claim_events_quiet[of d ?ids] assms(2)] c by simp
  have nd: "no_deletions d1" using assms(3) types by (simp add: no_deletions_def)
  have eq: "process_pending_events faults limit now d = process_loop faults es now 0 d1"
    by (simp add: process_pending_events_def claim_pending_events_def c)
  from process_loop_accounted[OF ok acc nd l, of faults now 0] types show
    "accounted base (fst (process_pending_events faults limit now d))"
    "e_event_type ` set (d_events (fst (process_pending_events faults limit now d)))
      = e_event_type ` set (d_events d)"
    unfolding eq by simp_all
qed

lemma batch_types:
  "e_event_type ` set (d_events d) \<subseteq> e_event_type ` set (d_events (fst (process_pending_events faults limit now d)))"
proof -
  have loop: "e_event_type ` set (d_events (fst (process_loop faults es now h d))) = e_event_type ` set (d_events d)"
    for es h d
    by (induction es arbitrary: d h)
      (auto simp: process_event_types release_event_def types_update_where split: event_fault.split)
  have "e_event_type ` set (d_events (fst (claim_events ids d))) = e_event_type ` set (d_events d)" for ids d
    by (induction ids arbitrary: d) (simp_all add: Let_def split_beta claim_event_def types_update_where)
  then show ?thesis
    by (simp add: process_pending_events_def claim_pending_events_def split_beta loop)
qed

section \<open>Every interleaving\<close>

fun is_RULE :: "sys_label \<Rightarrow> bool" where
  "is_RULE (RULE i now body) = True"
| "is_RULE _ = False"

text \<open>Every other step is a batch or quiet.\<close>

lemma sys_do_quiet:
  assumes "sys_do o' l x = Some y" "db_ok (s_db x)" "\<not> is_RULE l"
    and "\<not> count_duplicate_events_as_blocked (o_settings o')"
  shows "quiet (s_db x) (s_db y)
    \<or> (\<exists>faults limit now. s_db y = fst (process_pending_events faults limit now (s_db x)))"
proof (cases l)
  case (DELIVERY storage now body hdr)
  then show ?thesis using assms(1) webhook_quiet[OF assms(4)] by auto
next
  case (CLAIM now)
  then have "s_db y = fst (dm_claim now (s_db x))"
    using assms(1) by (auto split: if_splits prod.splits option.splits)
  with dm_claim_quiet[OF assms(2)] show ?thesis by simp
next
  case (TURN ok t)
  then have "s_db y = snd (fst (acquire_once ok t (s_limiter x, s_db x)))"
    using assms(1) by (auto simp: Let_def split: phase.splits prod.splits attempt.splits)
  with acquire_once_quiet show ?thesis by simp
next
  case (RESPONSE reply u now)
  then obtain c where ph: "s_phase x = P_SENT c" using assms(1) by (auto split: phase.splits)
  have "quiet (s_db x) (s_db y)"
  proof (cases "answer (o_settings o') c reply")
    case (Inl e)
    then show ?thesis using assms(1) RESPONSE ph by auto
  next
    case (Inr r)
    then show ?thesis
      using assms(1) RESPONSE ph dm_apply_quiet[OF assms(2), of "o_settings o'" u now "cl_id c" r]
      by (auto split: prod.splits sum.splits)
  qed
  then show ?thesis by blast
next
  case (LATE_WRITE u now)
  then show ?thesis
    using assms(1) dm_apply_quiet[OF assms(2)] by (auto split: phase.splits option.splits)
next
  case (RELEASE now)
  then show ?thesis
    using assms(1) release_claim_quiet[OF assms(2)] by (auto split: phase.splits)
next
  case (START ok c1 c2 now)
  then have "s_db y = snd (fst (lifespan_start (o_settings o') ok c1 c2 now (s_db x)))"
    using assms(1) by (auto split: if_splits prod.splits option.splits sum.splits)
  with lifespan_start_quiet show ?thesis by simp
next
  case (BATCH faults limit now)
  then have "s_db y = fst (process_pending_events faults limit now (s_db x))"
    using assms(1) by (auto split: if_splits)
  then show ?thesis by blast
next
  case (POLL i status u now)
  then show ?thesis using assms(1) reconcile_apply_quiet[OF assms(2)] by (auto split: if_splits)
next
  case (MAINTAIN now)
  then show ?thesis using assms(1) manager_requeue_quiet by (auto split: if_splits)
qed (use assms(1,3) in \<open>auto split: phase.splits\<close>)

lemma sys_run_accounted:
  assumes "\<not> count_duplicate_events_as_blocked (o_settings o')" "good_settings (o_settings o')"
    and "sys_run o' ls x = Some y" "sys_inv o' x" "accounted base (s_db x)"
    and "\<not> list_ex is_RULE ls" "no_deletions (s_db y)"
  shows "accounted base (s_db y)"
  using assms(3-6)
proof (induction ls arbitrary: x)
  case (Cons lab ls)
  obtain x' where x': "sys_do o' lab x = Some x'" "sys_run o' ls x' = Some y"
    using Cons.prems(1) by (auto split: option.splits)
  have inv: "sys_inv o' x'"
    using sys_step_inv[OF assms(2) _ Cons.prems(2)] x'(1) by (simp add: sys_step_def)
  have ok: "db_ok (s_db x)" using Cons.prems(2) by (simp add: sys_inv_def)
  have rules: "\<not> is_RULE lab" "\<not> list_ex is_RULE ls" using Cons.prems(4) by auto
  have later: "e_event_type ` set (d_events (s_db z)) \<subseteq> e_event_type ` set (d_events (s_db y))"
    if "sys_run o' ks z = Some y" "sys_inv o' z" "\<not> list_ex is_RULE ks" for ks z
    using that
  proof (induction ks arbitrary: z)
    case (Cons k ks)
    obtain z' where z': "sys_do o' k z = Some z'" "sys_run o' ks z' = Some y"
      using Cons.prems(1) by (auto split: option.splits)
    have "sys_inv o' z'" using sys_step_inv[OF assms(2) _ Cons.prems(2)] z'(1) by (simp add: sys_step_def)
    from Cons.IH[OF z'(2) this] Cons.prems(3)
    have "e_event_type ` set (d_events (s_db z')) \<subseteq> e_event_type ` set (d_events (s_db y))" by simp
    moreover have "e_event_type ` set (d_events (s_db z)) \<subseteq> e_event_type ` set (d_events (s_db z'))"
    proof -
      have "db_ok (s_db z)" "\<not> is_RULE k" using Cons.prems(2,3) by (simp_all add: sys_inv_def)
      from sys_do_quiet[OF z'(1) this assms(1)] show ?thesis
        by (elim disjE exE) (simp add: quiet_def, simp only: batch_types)
    qed
    ultimately show ?case by (rule order_trans[rotated])
  qed simp
  have "no_deletions (s_db x)"
    using later[OF Cons.prems(1,2,4)] assms(7) unfolding no_deletions_def by blast
  with sys_do_quiet[OF x'(1) ok rules(1) assms(1)] quiet_accounted[OF _ Cons.prems(3)]
    batch_accounted(1)[OF ok Cons.prems(3)] have "accounted base (s_db x')" by auto
  from Cons.IH[OF x'(2) inv this rules(2)] show ?case .
qed simp

text \<open>Before the first event there are no jobs.\<close>

definition fresh :: "db \<Rightarrow> bool" where
  "fresh d \<longleftrightarrow> d_events d = [] \<and> d_jobs d = [] \<and> d_deleted d = []"

lemma fresh_accounted: "fresh d \<Longrightarrow> accounted (get_counter DUPLICATES_BLOCKED d) d"
  by (simp add: fresh_def accounted_def matched_pairs_def match_total_def)


text \<open>A rule, then two comments of one user.\<close>

definition twice :: surroundings where
  "twice = demo\<lparr>o_loads := \<lambda>body. Inr (comment_json body ''comment.created'' body)\<rparr>"

definition twice_setup :: "sys_label list" where
  "twice_setup = [START True 1 1 10, RULE ''r1'' 11 rule_body]"

definition twice_rules :: sys where
  "twice_rules = the (sys_run twice twice_setup (sys_start twice 0))"

definition twice_labels :: "sys_label list" where
  "twice_labels = [DELIVERY None 12 ''a'' None, DELIVERY None 12 ''a'' None, DELIVERY None 13 ''b'' None,
     BATCH (\<lambda>i. if i = 2 then PROCESS_FAULT else NO_FAULT) 50 14, CRASH, START True 2 2 15,
     BATCH (\<lambda>_. NO_FAULT) 50 16]"

definition twice_end :: sys where
  "twice_end = the (sys_run twice twice_labels twice_rules)"

lemma twice_evaluates:
  "case sys_run twice twice_setup (sys_start twice 0) of None \<Rightarrow> False
   | Some x \<Rightarrow> d_events (s_db x) = [] \<and> d_jobs (s_db x) = [] \<and> d_deleted (s_db x) = []
       \<and> duplicates_blocked (compute_stats (s_db x)) = 0
       \<and> (case sys_run twice twice_labels x of None \<Rightarrow> False
          | Some y \<Rightarrow> event_comment_deleted \<notin> e_event_type ` set (d_events (s_db y))
              \<and> card (matched_pairs (s_db y) (filter finished (d_events (s_db y)))) = 1
              \<and> match_total (s_db y) (filter finished (d_events (s_db y))) = 2
              \<and> sent (compute_stats (s_db y)) = 0 \<and> failed (compute_stats (s_db y)) = 0)"
  by code_simp

lemma twice_runs:
  "sys_run twice twice_setup (sys_start twice 0) = Some twice_rules"
  "sys_run twice twice_labels twice_rules = Some twice_end"
proof -
  show a: "sys_run twice twice_setup (sys_start twice 0) = Some twice_rules"
    using twice_evaluates by (auto simp: twice_rules_def split: option.splits)
  show "sys_run twice twice_labels twice_rules = Some twice_end"
    using twice_evaluates unfolding a by (auto simp: twice_end_def split: option.splits)
qed


end
