(* ===== verification/MockPseudogram.thy ===== *)
theory MockPseudogram
  imports Pseudogram RateLimiter
begin

text \<open>
  \<^verbatim>\<open>scripts/mock_pseudogram.py\<close>: the local stand-in for the PseudoGram API, and the contract
  it gives the sender.  Draws of the random source, the clock and the generated \<open>dm_id\<close> are
  the arguments of a request.  The request body is the sender's (\<open>send_request\<close>).
\<close>

section \<open>The server\<close>

datatype dm_state = DM_QUEUED | DM_DELIVERED | DM_FAILED

fun dm_state_value :: "dm_state \<Rightarrow> string" where
  "dm_state_value DM_QUEUED = ''queued''"
| "dm_state_value DM_DELIVERED = ''delivered''"
| "dm_state_value DM_FAILED = ''failed''"

record dm_record =
  dr_dm_id :: string
  dr_status :: dm_state
  dr_recipient_user_id :: string
  dr_created :: rat
  dr_will_fail :: bool

record mock =
  mk_send_times :: "rat list"
  mk_dms :: "dm_record list"
  mk_by_idempotency :: "(string \<times> string) list"
  mk_violations :: "rat list"

definition mock_start :: mock where
  "mock_start = \<lparr>mk_send_times = [], mk_dms = [], mk_by_idempotency = [], mk_violations = []\<rparr>"

definition mock_window_seconds :: rat where
  "mock_window_seconds = 60"

definition mock_max_sends :: nat where
  "mock_max_sends = 10"

text \<open>What one request draws: the clock, the 500 and the failure draw, the new id.\<close>

record mock_draw =
  md_now :: rat
  md_error_draw :: rat
  md_failure_draw :: rat
  md_dm_id :: string

definition json_response :: "int \<Rightarrow> string option \<Rightarrow> (string \<times> json) list \<Rightarrow> http_response" where
  "json_response n retry body = \<lparr>hr_status_code = n, hr_retry_after = retry,
     hr_json = Some (JObj body), hr_text = []\<rparr>"

text \<open>\<open>int()\<close> of a float truncates towards zero.\<close>

definition py_int :: "rat \<Rightarrow> int" where
  "py_int x = (if x < 0 then - \<lfloor>- x\<rfloor> else \<lfloor>x\<rfloor>)"

definition put_dm :: "dm_record \<Rightarrow> dm_record list \<Rightarrow> dm_record list" where
  "put_dm r dms = (if dr_dm_id r \<in> dr_dm_id ` set dms then replace_by dr_dm_id r dms else dms @ [r])"

definition mock_send ::
  "rat \<Rightarrow> rat \<Rightarrow> mock_draw \<Rightarrow> send_request \<Rightarrow> mock \<Rightarrow> mock \<times> http_response" where
  "mock_send error_rate failure_rate dr rq m =
     (let key = rq_idempotency_key rq; now = md_now dr in
      case (if key \<noteq> [] then map_of (mk_by_idempotency m) key else None) of
        Some dm_id \<Rightarrow>
          (m, json_response 202 None [(''dm_id'', JStr dm_id), (''status'', JStr ''queued''),
                                      (''replayed'', JBool True)])
      | None \<Rightarrow>
          let times = filter (\<lambda>t. now - mock_window_seconds < t) (mk_send_times m);
              m1 = m\<lparr>mk_send_times := times\<rparr>
          in if length times \<ge> mock_max_sends then
               (m1\<lparr>mk_violations := mk_violations m @ [now]\<rparr>,
                json_response 429
                  (Some (int_str (py_int (mock_window_seconds - (now - hd times)) + 1)))
                  [(''error'', JStr ''rate_limited'')])
             else
               let m2 = m1\<lparr>mk_send_times := times @ [now]\<rparr> in
               if rq_recipient_user_id rq = [] then
                 (m2, json_response 400 None [(''error'', JStr ''invalid_request''),
                        (''detail'', JStr ''recipient_user_id is required'')])
               else if md_error_draw dr < error_rate then
                 (m2, json_response 500 None [(''error'', JStr ''internal_error'')])
               else
                 let dm_id = md_dm_id dr;
                     r = \<lparr>dr_dm_id = dm_id, dr_status = DM_QUEUED,
                          dr_recipient_user_id = rq_recipient_user_id rq, dr_created = now,
                          dr_will_fail = (md_failure_draw dr < failure_rate)\<rparr>;
                     m3 = m2\<lparr>mk_dms := put_dm r (mk_dms m2)\<rparr>;
                     m4 = (if key \<noteq> [] then
                             m3\<lparr>mk_by_idempotency := (key, dm_id) # mk_by_idempotency m3\<rparr>
                           else m3)
                 in (m4, json_response 202 None [(''dm_id'', JStr dm_id),
                                                 (''status'', JStr ''queued'')]))"

definition mock_get :: "rat \<Rightarrow> string \<Rightarrow> mock \<Rightarrow> mock \<times> http_response" where
  "mock_get now dm_id m = (case find_by dr_dm_id dm_id (mk_dms m) of
       None \<Rightarrow> (m, json_response 404 None [(''error'', JStr ''not_found'')])
     | Some r \<Rightarrow>
         let r' = (if dr_status r = DM_QUEUED \<and> now - dr_created r > 3
                   then r\<lparr>dr_status := (if dr_will_fail r then DM_FAILED else DM_DELIVERED)\<rparr>
                   else r)
         in (m\<lparr>mk_dms := replace_by dr_dm_id r' (mk_dms m)\<rparr>,
             json_response 200 None [(''dm_id'', JStr dm_id),
               (''status'', JStr (dm_state_value (dr_status r'))),
               (''recipient_user_id'', JStr (dr_recipient_user_id r'))]))"

record mock_report =
  mr_total_sends :: nat
  mr_statuses :: "dm_state \<Rightarrow> nat"
  mr_rate_limit_violations :: "rat list"
  mr_idempotency_keys :: nat

definition report :: "mock \<Rightarrow> mock_report" where
  "report m = \<lparr>mr_total_sends = length (mk_dms m),
     mr_statuses = (\<lambda>st. count_where (\<lambda>r. dr_status r = st) (mk_dms m)),
     mr_rate_limit_violations = mk_violations m,
     mr_idempotency_keys = length (mk_by_idempotency m)\<rparr>"

section \<open>The contract of an idempotent provider\<close>

text \<open>
  What the sender's key buys: a request either is a replay of a key the provider knows, and
  then changes nothing, or adds at most its own key and at most one message.
\<close>

locale idempotent_provider =
  fixes send :: "'i \<Rightarrow> 'k \<Rightarrow> 's \<Rightarrow> 's" and keys :: "'s \<Rightarrow> 'k set" and messages :: "'s \<Rightarrow> nat"
  assumes replay: "k \<in> keys s \<Longrightarrow> send i k s = s"
    and fresh: "k \<notin> keys s \<Longrightarrow> (keys (send i k s) = keys s \<and> messages (send i k s) = messages s)
      \<or> (keys (send i k s) = insert k (keys s) \<and> messages (send i k s) \<le> Suc (messages s))"
begin

lemma keys_after: "keys s \<subseteq> keys (fold (\<lambda>(i, k). send i k) rs s)
    \<and> keys (fold (\<lambda>(i, k). send i k) rs s) \<subseteq> keys s \<union> snd ` set rs"
proof (induction rs arbitrary: s)
  case (Cons r rs)
  obtain i k where r: "r = (i, k)" by (cases r)
  have "keys s \<subseteq> keys (send i k s)" "keys (send i k s) \<subseteq> insert k (keys s)"
    using replay[of k s i] fresh[of k s i] by (cases "k \<in> keys s"; auto)+
  then show ?case using Cons.IH[of "send i k s"] by (auto simp: r)
qed simp

lemma messages_after:
  assumes "finite (keys s)"
  shows "finite (keys (fold (\<lambda>(i, k). send i k) rs s))
    \<and> messages (fold (\<lambda>(i, k). send i k) rs s) + card (keys s)
      \<le> messages s + card (keys (fold (\<lambda>(i, k). send i k) rs s))"
  using assms
proof (induction rs arbitrary: s)
  case (Cons r rs)
  obtain i k where r: "r = (i, k)" by (cases r)
  have step: "finite (keys (send i k s))
      \<and> messages (send i k s) + card (keys s) \<le> messages s + card (keys (send i k s))"
  proof (cases "k \<in> keys s")
    case False
    have "card (insert k (keys s)) = Suc (card (keys s))" using False Cons.prems by simp
    with fresh[OF False, of i] Cons.prems show ?thesis by (elim disjE conjE) simp_all
  qed (simp add: replay Cons.prems)
  with Cons.IH[of "send i k s"] show ?case by (auto simp: r)
qed simp

lemma at_most_one_message_per_key:
  assumes "keys s = {}" "messages s = 0"
  shows "messages (fold (\<lambda>(i, k). send i k) rs s) \<le> card (snd ` set rs)"
proof -
  have "messages (fold (\<lambda>(i, k). send i k) rs s) \<le> card (keys (fold (\<lambda>(i, k). send i k) rs s))"
    using messages_after[of s rs] assms by simp
  also have "\<dots> \<le> card (snd ` set rs)"
    using keys_after[of s rs] assms(1) by (intro card_mono) auto
  finally show ?thesis .
qed

end

definition mock_keys :: "mock \<Rightarrow> string set" where
  "mock_keys m = fst ` set (mk_by_idempotency m)"

text \<open>A keyed request: the key is not empty, as the sender's keys never are.\<close>

definition mock_step :: "rat \<times> rat \<times> mock_draw \<times> send_request \<Rightarrow> string \<Rightarrow> mock \<Rightarrow> mock" where
  "mock_step i key m = (case i of (e, f, dr, rq) \<Rightarrow>
     if key = [] then m else fst (mock_send e f dr (rq\<lparr>rq_idempotency_key := key\<rparr>) m))"

lemma length_put_dm: "length (put_dm r dms) \<le> Suc (length dms)"
  by (simp add: put_dm_def)

lemma mock_replay:
  assumes "map_of (mk_by_idempotency m) (rq_idempotency_key rq) = Some dm_id"
    and "rq_idempotency_key rq \<noteq> []"
  shows "mock_send e f dr rq m = (m, json_response 202 None [(''dm_id'', JStr dm_id),
           (''status'', JStr ''queued''), (''replayed'', JBool True)])"
  using assms by (simp add: mock_send_def Let_def)

lemma mock_send_fresh:
  assumes "rq_idempotency_key rq \<notin> mock_keys m"
    and "m' = fst (mock_send e f dr rq m)"
  shows "(mk_by_idempotency m' = mk_by_idempotency m \<and> mk_dms m' = mk_dms m)
    \<or> (mk_by_idempotency m' = (rq_idempotency_key rq, md_dm_id dr) # mk_by_idempotency m
        \<and> length (mk_dms m') \<le> Suc (length (mk_dms m)))
    \<or> rq_idempotency_key rq = []"
proof -
  have "map_of (mk_by_idempotency m) (rq_idempotency_key rq) = None"
    using assms(1) by (simp add: mock_keys_def map_of_eq_None_iff)
  then show ?thesis
    by (auto simp: assms(2) mock_send_def Let_def length_put_dm)
qed

interpretation mock_provider: idempotent_provider mock_step mock_keys "\<lambda>m. length (mk_dms m)"
proof
  fix k :: string and m :: mock and i :: "rat \<times> rat \<times> mock_draw \<times> send_request"
  obtain e f dr rq where i: "i = (e, f, dr, rq)" by (cases i)
  let ?rq = "rq\<lparr>rq_idempotency_key := k\<rparr>"
  { assume "k \<in> mock_keys m"
    then obtain dm where "map_of (mk_by_idempotency m) k = Some dm"
      unfolding mock_keys_def by (metis map_of_eq_None_iff not_None_eq)
    then show "mock_step i k m = m" by (simp add: mock_step_def i mock_replay) }
  { assume "k \<notin> mock_keys m"
    with mock_send_fresh[of ?rq m _ e f dr, OF _ refl]
    show "(mock_keys (mock_step i k m) = mock_keys m
          \<and> length (mk_dms (mock_step i k m)) = length (mk_dms m))
        \<or> (mock_keys (mock_step i k m) = insert k (mock_keys m)
          \<and> length (mk_dms (mock_step i k m)) \<le> Suc (length (mk_dms m)))"
      by (auto simp: mock_step_def i mock_keys_def) }
qed

section \<open>Properties\<close>

text \<open>
  C25: The key makes retries harmless: whatever requests reach the server, in whatever order
  and however often each is repeated, it holds at most one message per idempotency key; and a
  repeated key is answered with the message id of the first, without a trace in the server.
\<close>

theorem at_most_one_dm_per_key:
  "length (mk_dms (fold (\<lambda>(i, key). mock_step i key) rs mock_start)) \<le> card (snd ` set rs)
   \<and> (rq_idempotency_key rq \<noteq> [] \<and> map_of (mk_by_idempotency m) (rq_idempotency_key rq) = Some dm_id
      \<longrightarrow> fst (mock_send e f dr rq m) = m
        \<and> sr_outcome (classify_send (snd (mock_send e f dr rq m))) = S_ACCEPTED
        \<and> sr_dm_id (classify_send (snd (mock_send e f dr rq m))) = JStr dm_id)"
proof -
  have "mock_keys mock_start = {}" "length (mk_dms mock_start) = 0"
    by (simp_all add: mock_keys_def mock_start_def)
  from mock_provider.at_most_one_message_per_key[OF this, of rs]
  show ?thesis
    by (auto simp: mock_replay classify_send_def Let_def json_response_def safe_json_def
        dict_get_def dict_get_default_def)
qed

definition draw1 :: mock_draw where
  "draw1 = \<lparr>md_now = 100, md_error_draw = 1 / 2, md_failure_draw = 1 / 2, md_dm_id = ''dm_1''\<rparr>"

definition request1 :: send_request where
  "request1 = \<lparr>rq_recipient_user_id = ''u1'', rq_message = ''hi'', rq_comment_id = None,
     rq_idempotency_key = ''dm-job-1''\<rparr>"

theorem at_most_one_dm_per_key_witness:
  "let m = fst (mock_send 0 0 draw1 request1 mock_start) in
     length (mk_dms m) = 1
     \<and> sr_dm_id (classify_send (snd (mock_send 0 0 (draw1\<lparr>md_dm_id := ''dm_2''\<rparr>) request1 m))) = JStr ''dm_1''"
proof -
  let ?m = "fst (mock_send 0 0 draw1 request1 mock_start)"
  have "length (mk_dms ?m) = 1" "rq_idempotency_key request1 \<noteq> []"
    "map_of (mk_by_idempotency ?m) (rq_idempotency_key request1) = Some ''dm_1''"
    by code_simp+
  with at_most_one_dm_per_key[where rq = request1 and m = ?m and dm_id = "''dm_1''"
      and e = 0 and f = 0 and dr = "draw1\<lparr>md_dm_id := ''dm_2''\<rparr>" and rs = "[]"]
  show ?thesis by (simp add: Let_def)
qed

text \<open>Requests that reach the server at given times.\<close>

fun mock_sends :: "rat \<Rightarrow> rat \<Rightarrow> (mock_draw \<times> send_request) list \<Rightarrow> mock \<Rightarrow> mock" where
  "mock_sends e f [] m = m"
| "mock_sends e f ((dr, rq) # rs) m = mock_sends e f rs (fst (mock_send e f dr rq m))"

lemma length_filter_submset:
  "mset xs \<subseteq># mset ys \<Longrightarrow> length (filter P xs) \<le> length (filter P ys)"
  by (metis mset_filter multiset_filter_mono size_mset size_mset_mono)

lemma mock_send_times:
  "length (filter (\<lambda>t. md_now dr - mock_window_seconds < t) (mk_send_times m)) < mock_max_sends \<Longrightarrow>
   mk_violations (fst (mock_send e f dr rq m)) = mk_violations m
   \<and> (mk_send_times (fst (mock_send e f dr rq m)) = mk_send_times m \<or>
      mk_send_times (fst (mock_send e f dr rq m)) =
        filter (\<lambda>t. md_now dr - mock_window_seconds < t) (mk_send_times m) @ [md_now dr])"
  by (auto simp: mock_send_def Let_def split: option.splits)

lemma mock_sends_within_limit:
  assumes "\<And>x. window_count mock_window_seconds x (gs @ map (md_now \<circ> fst) rs) \<le> mock_max_sends"
    and "sorted (gs @ map (md_now \<circ> fst) rs)"
    and "mset (mk_send_times m) \<subseteq># mset gs" "mk_violations m = []"
  shows "mk_violations (mock_sends e f rs m) = []"
  using assms
proof (induction rs arbitrary: m gs)
  case (Cons r rs)
  obtain dr rq where r: "r = (dr, rq)" by (cases r)
  let ?now = "md_now dr" and ?w = mock_window_seconds
  have le: "\<forall>g \<in> set gs. g \<le> ?now" using Cons.prems(2) by (auto simp: r sorted_append)
  have later: "\<forall>t \<in> set (map (md_now \<circ> fst) rs). ?now \<le> t"
    using Cons.prems(2) by (auto simp: r sorted_append)
  have pos: "?now - ?w < ?now" by (simp add: mock_window_seconds_def)
  have "Suc (length (filter (\<lambda>t. ?now - ?w < t) gs)) \<le> window_count ?w ?now (gs @ map (md_now \<circ> fst) (r # rs))"
    using le pos by (simp add: window_count_def r filter_cong[of gs gs "\<lambda>t. ?now - ?w < t \<and> t \<le> ?now"])
  then have "length (filter (\<lambda>t. ?now - ?w < t) gs) < mock_max_sends"
    using Cons.prems(1)[of ?now] by linarith
  with length_filter_submset[OF Cons.prems(3), of "\<lambda>t. ?now - ?w < t"]
  have "length (filter (\<lambda>t. ?now - ?w < t) (mk_send_times m)) < mock_max_sends" by linarith
  note step = mock_send_times[OF this, of e f rq]
  let ?m = "fst (mock_send e f dr rq m)"
  have "mset (filter (\<lambda>t. ?now - ?w < t) (mk_send_times m)) \<subseteq># mset gs"
    using Cons.prems(3) by (metis mset_filter multiset_filter_subset subset_mset.order_trans)
  moreover have "A \<subseteq># mset (gs @ [?now])" if "A \<subseteq># mset gs" for A
    using subset_mset.order_trans[OF that, of "mset (gs @ [?now])"] by simp
  ultimately have "mset (mk_send_times ?m) \<subseteq># mset (gs @ [?now])"
    using step Cons.prems(3) by auto
  from Cons.IH[OF _ _ this] Cons.prems(1,2,4) step show ?case by (simp add: r)
qed simp

text \<open>
  C26: The sender's limiter satisfies the server's limit.  When the requests reach the server
  at the times the limiter granted them (limit 10 in 60 seconds, whatever restarts happened in
  between), the server never sees its limit exceeded and never answers 429.
\<close>

theorem limiter_never_violates_server_limit:
  assumes "sorted (concat (map action_times acts))" and "d_send_log d = []"
    and "map (md_now \<circ> fst) rs = snd (limiter_run acts (new_limiter 10 60 safety True, d))"
  shows "mk_violations (mock_sends e f rs mock_start) = []"
proof (rule mock_sends_within_limit[where gs = "[]"])
  obtain now where now: "sorted (now # concat (map action_times acts))"
    using sorted_with_start[OF assms(1)] by blast
  have inv: "limiter_inv 60 10 now [] (new_limiter 10 60 safety True, d)"
    using assms(2) by (rule limiter_inv_start)
  show "window_count mock_window_seconds x ([] @ map (md_now \<circ> fst) rs) \<le> mock_max_sends" for x
    using limiter_run_inv[OF inv _ now, of x] assms(3)
    by (simp add: mock_window_seconds_def mock_max_sends_def)
  show "sorted ([] @ map (md_now \<circ> fst) rs)"
    using limiter_run_sorted[OF inv _ now] assms(3) by simp
qed (simp_all add: mock_start_def)

theorem limiter_never_violates_server_limit_witness:
  "mk_violations (mock_sends 0 0 (map (\<lambda>t. (draw1\<lparr>md_now := t\<rparr>, request1\<lparr>rq_idempotency_key := nat_str (nat \<lfloor>t\<rfloor>)\<rparr>))
       [1, 2, 3]) mock_start) = []"
proof (rule limiter_never_violates_server_limit[where acts = "[ATTEMPT 1, ATTEMPT 2, RESTART 2 2, ATTEMPT 3]"
      and d = empty_db and safety = "1 / 2"])
  show "sorted (concat (map action_times [ATTEMPT 1, ATTEMPT 2, RESTART 2 2, ATTEMPT 3]))" by simp
  show "d_send_log empty_db = []" by (simp add: empty_db_def)
  have "snd (limiter_run [ATTEMPT 1, ATTEMPT 2, RESTART 2 2, ATTEMPT 3]
      (new_limiter 10 60 (1 / 2) True, empty_db)) = [1, 2, 3]"
    by code_simp
  then show "map (md_now \<circ> fst) (map (\<lambda>t. (draw1\<lparr>md_now := t\<rparr>, request1\<lparr>rq_idempotency_key := nat_str (nat \<lfloor>t\<rfloor>)\<rparr>)) [1, 2, 3])
      = snd (limiter_run [ATTEMPT 1, ATTEMPT 2, RESTART 2 2, ATTEMPT 3]
          (new_limiter 10 60 (1 / 2) True, empty_db))"
    by (simp add: comp_def)
qed

text \<open>
  The sender understands the server: a DM that the server has keeps its recipient and is
  first reported \<open>queued\<close>; more than three seconds after its creation every answer is final,
  \<open>failed\<close> or \<open>delivered\<close> as decided when it was created, and polling again gives the
  same answer; an unknown id is reported \<open>NOT_FOUND\<close>.
\<close>

theorem mock_get_is_final:
  assumes "find_by dr_dm_id i (mk_dms m) = Some r" and "dr_status r = DM_QUEUED"
    and "now - dr_created r > 3" and "now \<le> later"
  shows "st_outcome (classify_status (snd (mock_get now i m))) = ST_OK
     \<and> st_status (classify_status (snd (mock_get now i m)))
         = JStr (if dr_will_fail r then ''failed'' else ''delivered'')
     \<and> snd (mock_get later i (fst (mock_get now i m))) = snd (mock_get now i m)
     \<and> (find_by dr_dm_id k (mk_dms m) = None \<longrightarrow>
          st_outcome (classify_status (snd (mock_get now k m))) = ST_NOT_FOUND)"
proof -
  let ?r = "r\<lparr>dr_status := (if dr_will_fail r then DM_FAILED else DM_DELIVERED)\<rparr>"
  have i: "i \<in> dr_dm_id ` set (mk_dms m)" "dr_dm_id ?r = i"
    using find_by_SomeD[OF assms(1)] by auto
  have "find_by dr_dm_id i (replace_by dr_dm_id ?r (mk_dms m)) = Some ?r"
    using find_by_replace_by_same[OF i] .
  then show ?thesis
    using assms
    by (auto simp: mock_get_def classify_status_def json_response_def safe_json_def dict_get_def
        dict_get_default_def Let_def)
qed

theorem mock_get_is_final_witness:
  "st_status (classify_status (snd (mock_get 104 ''dm_1'' (fst (mock_send 0 0 draw1 request1 mock_start)))))
     = JStr ''delivered''"
proof -
  let ?m = "fst (mock_send 0 0 draw1 request1 mock_start)"
  let ?r = "\<lparr>dr_dm_id = ''dm_1'', dr_status = DM_QUEUED, dr_recipient_user_id = ''u1'',
    dr_created = 100, dr_will_fail = False\<rparr>"
  have "find_by dr_dm_id ''dm_1'' (mk_dms ?m) = Some ?r" by code_simp
  from mock_get_is_final[OF this, of 104 104] show ?thesis by simp
qed

end
