(* ===== verification/Simulation.thy ===== *)
theory Simulation
  imports Accounting MockPseudogram
begin

text \<open>
  The simulation of \<^verbatim>\<open>scripts/mock_pseudogram.py\<close>: it posts comment webhooks, repeats some of
  them, and keeps a tally of what a correct application must report.  The random draws and the
  formatted time are arguments; posting is a function of the world.  The main theorem compares
  the tally with the statistics of the service after any run in which the posts arrived.
\<close>

section \<open>The simulation\<close>

record sim_payload =
  sp_event_id :: string
  sp_sent_at :: string
  sp_comment_id :: string
  sp_text :: string
  sp_created_at :: string
  sp_user_id :: string

definition payload_json :: "sim_payload \<Rightarrow> json" where
  "payload_json p = JObj [(''event_id'', JStr (sp_event_id p)), (''event_type'', JStr ''comment.created''),
     (''sent_at'', JStr (sp_sent_at p)),
     (''data'', JObj [(''comment_id'', JStr (sp_comment_id p)), (''post_id'', JStr ''post_sim''),
        (''text'', JStr (sp_text p)), (''created_at'', JStr (sp_created_at p)),
        (''from'', JObj [(''user_id'', JStr (sp_user_id p)), (''username'', JStr (''u_'' @ sp_user_id p))])])]"

text \<open>The draws of one turn: the two \<open>random()\<close>, \<open>choice\<close>, \<open>randrange\<close> and the clock.\<close>

record sim_draw =
  sd_redelivery :: rat
  sd_choice :: nat
  sd_match :: rat
  sd_user :: nat
  sd_time :: string

definition match_rate :: rat where
  "match_rate = 4 / 5"

definition redelivery_rate :: rat where
  "redelivery_rate = 1 / 4"

definition new_payload :: "string \<Rightarrow> string \<Rightarrow> nat \<Rightarrow> sim_draw \<Rightarrow> sim_payload" where
  "new_payload run_id keyword index dr = \<lparr>
     sp_event_id = ''evt_sim_'' @ take 6 run_id @ ''_'' @ nat_str index,
     sp_sent_at = sd_time dr, sp_comment_id = ''cmt_sim_'' @ nat_str index,
     sp_text = (if sd_match dr < match_rate then keyword @ '' please'' else ''nice shot''),
     sp_created_at = sd_time dr, sp_user_id = ''usr_sim_'' @ nat_str (sd_user dr)\<rparr>"

record tally =
  ta_history :: "sim_payload list"
  ta_users :: "string set"
  ta_event_ids :: "string set"
  ta_deliveries :: int

definition new_tally :: tally where
  "new_tally = \<lparr>ta_history = [], ta_users = {}, ta_event_ids = {}, ta_deliveries = 0\<rparr>"

definition sim_payload_of ::
  "string \<Rightarrow> string \<Rightarrow> nat \<Rightarrow> sim_draw \<Rightarrow> tally \<Rightarrow> sim_payload \<times> tally" where
  "sim_payload_of run_id keyword index dr t =
     (if ta_history t \<noteq> [] \<and> sd_redelivery dr < redelivery_rate
      then (ta_history t ! (sd_choice dr mod length (ta_history t)), t)
      else let p = new_payload run_id keyword index dr
           in (p, t\<lparr>ta_history := ta_history t @ [p]\<rparr>))"

definition sim_count :: "string \<Rightarrow> sim_payload \<Rightarrow> tally \<Rightarrow> tally" where
  "sim_count keyword p t =
     (if contains (lower (sp_text p)) (lower keyword)
      then t\<lparr>ta_deliveries := ta_deliveries t + 1, ta_users := insert (sp_user_id p) (ta_users t),
             ta_event_ids := insert (sp_event_id p) (ta_event_ids t)\<rparr>
      else t)"

record sim_run =
  sr_run_id :: string
  sr_delivered :: int
  sr_rejected :: int
  sr_errors :: int
  sr_finished :: bool
  sr_matching_deliveries :: "int option"
  sr_unique_matching_events :: "int option"
  sr_unique_matching_users :: "int option"

definition new_run :: "string \<Rightarrow> sim_run" where
  "new_run run_id = \<lparr>sr_run_id = run_id, sr_delivered = 0, sr_rejected = 0, sr_errors = 0,
     sr_finished = False, sr_matching_deliveries = None, sr_unique_matching_events = None,
     sr_unique_matching_users = None\<rparr>"

text \<open>The reply to a post: a status code, or \<open>httpx.HTTPError\<close>.\<close>

definition count_reply :: "nat option \<Rightarrow> sim_run \<Rightarrow> sim_run" where
  "count_reply reply run = (case reply of
       None \<Rightarrow> run\<lparr>sr_errors := sr_errors run + 1\<rparr>
     | Some status \<Rightarrow>
         let run1 = run\<lparr>sr_delivered := sr_delivered run + 1\<rparr>
         in if status \<noteq> 200 then run1\<lparr>sr_rejected := sr_rejected run1 + 1\<rparr> else run1)"

fun sim_loop ::
  "(string \<Rightarrow> string \<Rightarrow> string) \<Rightarrow> (json \<Rightarrow> string) \<Rightarrow> ('w \<Rightarrow> string \<Rightarrow> string \<Rightarrow> 'w \<times> nat option)
     \<Rightarrow> string \<Rightarrow> string \<Rightarrow> string \<Rightarrow> nat \<Rightarrow> sim_draw list \<Rightarrow> tally \<Rightarrow> sim_run \<Rightarrow> 'w
     \<Rightarrow> tally \<times> sim_run \<times> 'w" where
  "sim_loop hmac dumps post api_key run_id keyword index [] t run w = (t, run, w)"
| "sim_loop hmac dumps post api_key run_id keyword index (dr # drs) t run w =
     (let (p, t1) = sim_payload_of run_id keyword index dr t;
          t2 = sim_count keyword p t1;
          body = dumps (payload_json p);
          (w', reply) = post w body (''sha256='' @ hmac (encode api_key) body)
      in sim_loop hmac dumps post api_key run_id keyword (index + 1) drs t2 (count_reply reply run) w')"

definition run_simulation ::
  "(string \<Rightarrow> string \<Rightarrow> string) \<Rightarrow> (json \<Rightarrow> string) \<Rightarrow> ('w \<Rightarrow> string \<Rightarrow> string \<Rightarrow> 'w \<times> nat option)
     \<Rightarrow> string \<Rightarrow> string \<Rightarrow> sim_draw list \<Rightarrow> sim_run \<Rightarrow> 'w \<Rightarrow> sim_run \<times> 'w" where
  "run_simulation hmac dumps post api_key keyword drs run w =
     (let (t, run1, w') = sim_loop hmac dumps post api_key (sr_run_id run) keyword 0 drs new_tally run w
      in (run1\<lparr>sr_finished := True, sr_matching_deliveries := Some (ta_deliveries t),
               sr_unique_matching_events := Some (int (card (ta_event_ids t))),
               sr_unique_matching_users := Some (int (card (ta_users t)))\<rparr>, w'))"

record truth =
  tr_run_id :: string
  tr_finished_sending :: bool
  tr_webhooks_delivered :: int
  tr_webhooks_rejected :: int
  tr_webhook_errors :: int
  tr_matching_deliveries :: int
  tr_unique_matching_events :: int
  tr_expected :: stats
  tr_expected_counting_redeliveries :: stats

definition or_zero :: "int option \<Rightarrow> int" where
  "or_zero v = (case v of None \<Rightarrow> 0 | Some n \<Rightarrow> n)"

definition simulate_truth :: "sim_run option \<Rightarrow> truth response" where
  "simulate_truth found = (case found of
       None \<Rightarrow> Http 404 ''not_found''
     | Some run \<Rightarrow>
         let users = or_zero (sr_unique_matching_users run) in
         Ok 200 \<lparr>tr_run_id = sr_run_id run, tr_finished_sending = sr_finished run,
           tr_webhooks_delivered = sr_delivered run, tr_webhooks_rejected = sr_rejected run,
           tr_webhook_errors = sr_errors run,
           tr_matching_deliveries = or_zero (sr_matching_deliveries run),
           tr_unique_matching_events = or_zero (sr_unique_matching_events run),
           tr_expected = \<lparr>sent = users, failed = 0, queued = 0,
             duplicates_blocked = or_zero (sr_unique_matching_events run) - users\<rparr>,
           tr_expected_counting_redeliveries = \<lparr>sent = users, failed = 0, queued = 0,
             duplicates_blocked = or_zero (sr_matching_deliveries run) - users\<rparr>\<rparr>)"

text \<open>\<open>int(v)\<close> of a decoded JSON value.\<close>

definition int_of_text :: "string \<Rightarrow> int res" where
  "int_of_text t = (case drop_underscores (char_of (0::nat)) (c_strip (transform_spaces t)) of
       None \<Rightarrow> Inl ValueError
     | Some u \<Rightarrow>
         let neg = (u \<noteq> [] \<and> hd u = CHR ''-'');
             digits = (if u \<noteq> [] \<and> hd u \<in> {CHR ''-'', CHR ''+''} then tl u else u)
         in if digits = [] \<or> \<not> list_all is_digit digits \<or> length digits > 4300 then Inl ValueError
            else Inr (if neg then - int (digits_val digits) else int (digits_val digits)))"

definition int_of_json :: "json \<Rightarrow> int res" where
  "int_of_json v = (case v of
       JInt i \<Rightarrow> Inr i | JBool b \<Rightarrow> Inr (if b then 1 else 0) | JStr t \<Rightarrow> int_of_text t
     | JFloat t \<Rightarrow> (case py_float t of
           None \<Rightarrow> Inl ValueError
         | Some (FNum r) \<Rightarrow> Inr (if 0 \<le> r then \<lfloor>r\<rfloor> else \<lceil>r\<rceil>)
         | Some FNan \<Rightarrow> Inl ValueError | Some _ \<Rightarrow> Inl OverflowError)
     | _ \<Rightarrow> Inl TypeError)"

record sim_task =
  sk_run_id :: string
  sk_webhook_url :: json
  sk_count :: int
  sk_duration :: int
  sk_api_key :: string
  sk_keyword :: string

text \<open>
  The run is registered before the arguments of its task are evaluated: when one of them raises,
  the run stays and no task works on it.
\<close>

definition simulate_start ::
  "string \<Rightarrow> json res \<Rightarrow> string \<Rightarrow> string option \<Rightarrow> (string \<times> sim_run) list
     \<Rightarrow> (string \<times> sim_run) list \<times> sim_task res" where
  "simulate_start run_id decoded x_api_key mock_keyword runs = (case decoded of
       Inl e \<Rightarrow> (runs, Inl e)
     | Inr body \<Rightarrow>
         (let runs1 = (run_id, new_run run_id) # filter (\<lambda>kv. fst kv \<noteq> run_id) runs
          in case body of
               JObj kvs \<Rightarrow>
                 (case map_of kvs ''webhook_url'' of
                    None \<Rightarrow> (runs1, Inl KeyError)
                  | Some url \<Rightarrow>
                      (case int_of_json (dict_get_default kvs ''count'' (JInt 500)) of
                         Inl e \<Rightarrow> (runs1, Inl e)
                       | Inr n \<Rightarrow>
                           (case int_of_json (dict_get_default kvs ''duration_seconds'' (JInt 10)) of
                              Inl e \<Rightarrow> (runs1, Inl e)
                            | Inr m \<Rightarrow> (runs1, Inr \<lparr>sk_run_id = run_id, sk_webhook_url = url, sk_count = n,
                                sk_duration = m, sk_api_key = x_api_key,
                                sk_keyword = (case mock_keyword of None \<Rightarrow> ''PRICE'' | Some k \<Rightarrow> k)\<rparr>))))
             | _ \<Rightarrow> (runs1, Inl TypeError)))"

text \<open>
  A run whose task was never created is reported as unfinished for ever, with nothing expected.
\<close>

lemma failed_start_is_reported:
  assumes "simulate_start run_id (Inr body) key kw runs = (runs', Inl e)"
  shows "\<exists>tr. simulate_truth (map_of runs' run_id) = Ok 200 tr \<and> \<not> tr_finished_sending tr
    \<and> tr_expected tr = \<lparr>sent = 0, failed = 0, queued = 0, duplicates_blocked = 0\<rparr>"
proof -
  have "runs' = (run_id, new_run run_id) # filter (\<lambda>kv. fst kv \<noteq> run_id) runs"
    using assms by (auto simp: simulate_start_def Let_def split: json.splits option.splits sum.splits)
  then show ?thesis by (simp add: simulate_truth_def new_run_def or_zero_def Let_def)
qed

section \<open>What the tally counts\<close>

text \<open>The payloads in the order in which they are posted.\<close>

fun posted :: "string \<Rightarrow> string \<Rightarrow> nat \<Rightarrow> sim_draw list \<Rightarrow> tally \<Rightarrow> sim_payload list" where
  "posted run_id keyword index [] t = []"
| "posted run_id keyword index (dr # drs) t =
     (let (p, t1) = sim_payload_of run_id keyword index dr t
      in p # posted run_id keyword (index + 1) drs (sim_count keyword p t1))"

definition sim_matches :: "string \<Rightarrow> sim_payload \<Rightarrow> bool" where
  "sim_matches keyword p \<longleftrightarrow> contains (lower (sp_text p)) (lower keyword)"

text \<open>The posts do not depend on the replies; the tally is that of the posts.\<close>

lemma sim_loop_tally:
  assumes "sim_loop hmac dumps post api_key run_id keyword i drs t run w = (t', run', w')"
  shows "ta_users t' = ta_users t \<union> sp_user_id ` {p \<in> set (posted run_id keyword i drs t). sim_matches keyword p}
    \<and> ta_event_ids t' = ta_event_ids t \<union> sp_event_id ` {p \<in> set (posted run_id keyword i drs t). sim_matches keyword p}
    \<and> sr_finished run' = sr_finished run \<and> sr_run_id run' = sr_run_id run"
  using assms
proof (induction drs arbitrary: i t run w)
  case (Cons dr drs)
  obtain p t1 where p: "sim_payload_of run_id keyword i dr t = (p, t1)" by fastforce
  obtain w1 r where w1: "post w (dumps (payload_json p)) (''sha256='' @ hmac (encode api_key) (dumps (payload_json p))) = (w1, r)"
    by fastforce
  have t1: "ta_users t1 = ta_users t" "ta_event_ids t1 = ta_event_ids t"
    using p by (auto simp: sim_payload_of_def Let_def split: if_splits)
  have "sim_loop hmac dumps post api_key run_id keyword (i + 1) drs (sim_count keyword p t1) (count_reply r run) w1
      = (t', run', w')"
    using Cons.prems p w1 by (simp add: Let_def)
  from Cons.IH[OF this] show ?case
    by (auto simp: p t1 sim_count_def sim_matches_def count_reply_def Let_def split: option.splits)
qed auto

text \<open>Every payload is the new one of some turn, so its id names it.\<close>

definition sim_event_id :: "string \<Rightarrow> nat \<Rightarrow> string" where
  "sim_event_id run_id i = ''evt_sim_'' @ take 6 run_id @ ''_'' @ nat_str i"

lemma sim_event_id_inj: "sim_event_id run_id i = sim_event_id run_id k \<longleftrightarrow> i = k"
  by (auto simp: sim_event_id_def nat_str_inj)

definition history_ok :: "string \<Rightarrow> string \<Rightarrow> nat \<Rightarrow> sim_payload list \<Rightarrow> bool" where
  "history_ok run_id keyword n ps \<longleftrightarrow> inj_on sp_event_id (set ps)
     \<and> (\<forall>p \<in> set ps. \<exists>i dr. i < n \<and> p = new_payload run_id keyword i dr)"

lemma new_payload_id: "sp_event_id (new_payload run_id keyword i dr) = sim_event_id run_id i"
  by (simp add: new_payload_def sim_event_id_def)

lemma history_ok_new:
  assumes "history_ok run_id keyword i ps"
  shows "history_ok run_id keyword (Suc i) (ps @ [new_payload run_id keyword i dr])"
proof -
  have "sp_event_id p \<noteq> sim_event_id run_id i" if "p \<in> set ps" for p
    using assms that by (auto simp: history_ok_def new_payload_id sim_event_id_inj)
  then have fresh: "sp_event_id (new_payload run_id keyword i dr) \<notin> sp_event_id ` set ps"
    by (auto simp: new_payload_id dest: sym)
  have "inj_on sp_event_id (insert (new_payload run_id keyword i dr) (set ps))"
    using assms fresh unfolding history_ok_def inj_on_insert by blast
  moreover have "\<exists>k dr'. k < Suc i \<and> p = new_payload run_id keyword k dr'"
    if "p \<in> set (ps @ [new_payload run_id keyword i dr])" for p
    using assms that less_SucI lessI unfolding history_ok_def set_append by (metis Un_iff empty_iff insert_iff list.set)
  ultimately show ?thesis by (simp add: history_ok_def)
qed

lemma history_ok_later: "history_ok run_id keyword i ps \<Longrightarrow> history_ok run_id keyword (Suc i) ps"
  unfolding history_ok_def using less_Suc_eq by blast

lemma posted_history:
  assumes "history_ok run_id keyword i (ta_history t)"
  shows "\<exists>ps. set (posted run_id keyword i drs t) \<union> set (ta_history t) = set ps
    \<and> history_ok run_id keyword (i + length drs) ps"
  using assms
proof (induction drs arbitrary: i t)
  case Nil
  then show ?case by auto
next
  case (Cons dr drs)
  obtain p t1 where p: "sim_payload_of run_id keyword i dr t = (p, t1)" by fastforce
  have h: "history_ok run_id keyword (Suc i) (ta_history t1)"
    "p \<in> set (ta_history t1)" "set (ta_history t) \<subseteq> set (ta_history t1)"
    "set (ta_history t1) \<subseteq> insert p (set (ta_history t))"
    using p history_ok_new[OF Cons.prems] history_ok_later[OF Cons.prems]
    by (auto simp: sim_payload_of_def Let_def split: if_splits)
  have same: "ta_history (sim_count keyword p t1) = ta_history t1" by (simp add: sim_count_def)
  from Cons.IH[of "Suc i" "sim_count keyword p t1"] h(1) same obtain ps where
    ps: "set (posted run_id keyword (Suc i) drs (sim_count keyword p t1)) \<union> set (ta_history t1) = set ps"
      "history_ok run_id keyword (Suc i + length drs) ps" by auto
  have "set (posted run_id keyword i (dr # drs) t) \<union> set (ta_history t) = set ps"
    using ps(1) h(2-4) by (auto simp: p)
  with ps(2) show ?case by auto
qed

lemma posted_ok:
  "inj_on sp_event_id (set (posted run_id keyword 0 drs new_tally))"
  "p \<in> set (posted run_id keyword 0 drs new_tally) \<Longrightarrow>
     \<exists>i dr. i < length drs \<and> p = new_payload run_id keyword i dr"
proof -
  have "history_ok run_id keyword 0 (ta_history new_tally)" by (simp add: history_ok_def new_tally_def)
  from posted_history[OF this, of drs] obtain ps where ps:
    "set (posted run_id keyword 0 drs new_tally) = set ps" "history_ok run_id keyword (length drs) ps"
    by (auto simp: new_tally_def)
  then show "inj_on sp_event_id (set (posted run_id keyword 0 drs new_tally))"
    "p \<in> set (posted run_id keyword 0 drs new_tally) \<Longrightarrow>
     \<exists>i dr. i < length drs \<and> p = new_payload run_id keyword i dr"
    by (auto simp: history_ok_def)
qed

section \<open>What the service stores\<close>

definition content :: "event \<Rightarrow> string \<times> string \<times> string option \<times> string option" where
  "content e = (e_event_id e, e_event_type e, e_user_id e, e_text e)"

definition payload_content :: "sim_payload \<Rightarrow> string \<times> string \<times> string option \<times> string option" where
  "payload_content p = (sp_event_id p, event_comment_created, Some (sp_user_id p), Some (sp_text p))"

definition contents :: "db \<Rightarrow> (string \<times> string \<times> string option \<times> string option) list" where
  "contents d = map content (d_events d)"

lemma contents_update_where:
  "(\<And>e. content (f e) = content e) \<Longrightarrow> map content (update_where P f es) = map content es"
  by (rule map_key_update_where)

lemma events_frame:
  "d_events (fst (create_rule i now body d)) = d_events d"
  "d_events (fst (dm_claim now d)) = d_events d"
  "d_events (fst (dm_apply s u now k r d)) = d_events d"
  "d_events (fst (release_claim now k d)) = d_events d"
  "d_events (fst (reconcile_apply s u now k status d)) = d_events d"
  "d_events (fst (manager_requeue_stale s now d)) = d_events d"
  "d_events (snd (fst (acquire_once ok t (l, d)))) = d_events d"
proof -
  show "d_events (fst (create_rule i now body d)) = d_events d"
    by (cases rule: create_rule_cases[of i now body d]) auto
  have "d_events (fst (claim_from ids now d)) = d_events d" for ids
    by (induction ids) (auto simp: claim_update_def)
  then show "d_events (fst (dm_claim now d)) = d_events d"
    by (simp add: dm_claim_frame claim_next_job_def)
  show "d_events (fst (dm_apply s u now k r d)) = d_events d"
    by (cases rule: dm_apply_cases[of k d s u now r]) auto
  show "d_events (fst (release_claim now k d)) = d_events d"
    by (auto simp: release_claim_def session_scope_def flush_job_def split: option.splits sum.splits if_splits)
  show "d_events (fst (reconcile_apply s u now k status d)) = d_events d"
    by (auto simp: reconcile_apply_def session_scope_def apply_delivery_status_def flush_job_def
        split: option.splits sum.splits if_splits)
  show "d_events (fst (manager_requeue_stale s now d)) = d_events d"
    by (auto simp: manager_requeue_stale_def session_scope_def requeue_stale_sending_def split: sum.splits)
  show "d_events (snd (fst (acquire_once ok t (l, d)))) = d_events d"
    by (cases rule: acquire_once_cases[of t l ok d]) (auto simp: persist_def record_attempt_def)
qed

lemma batch_contents: "contents (fst (process_pending_events faults limit now d)) = contents d"
proof -
  have p: "map content (d_events (process_event e now d)) = map content (d_events d)" for e d
    using process_event_frame(3)[of e now d] contents_update_where
    by (elim exE conjE) (simp add: content_def contents_update_where)
  have loop: "map content (d_events (fst (process_loop faults es now h d))) = map content (d_events d)" for es h d
    by (induction es arbitrary: d h)
      (auto simp: p release_event_def contents_update_where content_def split: event_fault.split)
  have "map content (d_events (fst (claim_events ids d))) = map content (d_events d)" for ids d
    by (induction ids arbitrary: d)
      (simp_all add: Let_def split_beta claim_event_def contents_update_where content_def)
  then show ?thesis
    by (simp add: contents_def process_pending_events_def claim_pending_events_def split_beta loop)
qed

lemma recover_contents: "contents (fst (recover_state now d)) = contents d"
  by (auto simp: recover_state_def session_scope_def requeue_stale_sending_def requeue_stuck_events_def
      contents_def contents_update_where content_def Let_def split: sum.splits)

lemma start_contents: "contents (snd (fst (lifespan_start s ok c1 c2 now d))) = contents d"
proof -
  have w: "contents (snd (warm_start ok c1 c2 (l, d1))) = contents d1" for l d1
    by (auto simp: warm_start_def Let_def prune_def contents_def)
  have "contents (snd (fst (manager_start s ok c1 c2 now d1))) = contents d1" for d1
    using recover_contents[of now d1] w
    by (cases "recover_state now d1"; cases "snd (recover_state now d1)") (auto simp: manager_start_def)
  then show ?thesis
    by (auto simp: lifespan_start_def session_scope_def Let_def contents_def split: prod.splits)
      (metis fst_conv snd_conv seed_counters_frame(2))+
qed

fun arrival :: "sys_label \<Rightarrow> (py_exc option \<times> string \<times> string option) option" where
  "arrival (DELIVERY storage now body hdr) = Some (storage, body, hdr)"
| "arrival _ = None"

lemma sys_do_contents:
  assumes "sys_do o' l x = Some y" "arrival l = None"
  shows "contents (s_db y) = contents (s_db x)"
proof (cases l)
  case (RESPONSE reply u now)
  then obtain c where ph: "s_phase x = P_SENT c" using assms(1) by (auto split: phase.splits)
  show ?thesis
  proof (cases "answer (o_settings o') c reply")
    case (Inl e)
    then show ?thesis using assms(1) RESPONSE ph by auto
  next
    case (Inr r)
    then show ?thesis
      using assms(1) RESPONSE ph events_frame(3)[of "o_settings o'" u now "cl_id c" r "s_db x"]
      by (auto simp: contents_def split: prod.splits sum.splits)
  qed
next
  case (CLAIM now)
  then show ?thesis using assms(1) events_frame(2)[of now "s_db x"]
    by (auto simp: contents_def split: if_splits prod.splits option.splits)
next
  case (TURN ok t)
  then have "s_db y = snd (fst (acquire_once ok t (s_limiter x, s_db x)))"
    using assms(1) by (auto simp: Let_def split: phase.splits prod.splits attempt.splits)
  then show ?thesis by (simp add: contents_def events_frame)
next
  case (START ok c1 c2 now)
  then have "contents (s_db y) = contents (s_db x)
      \<or> s_db y = snd (fst (lifespan_start (o_settings o') ok c1 c2 now (s_db x)))"
    using assms(1) by (auto split: if_splits prod.splits option.splits sum.splits)
  with start_contents show ?thesis by metis
qed (use assms in \<open>auto simp: contents_def events_frame batch_contents[unfolded contents_def]
      split: if_splits phase.splits option.splits\<close>)

section \<open>The posts arrive\<close>

definition header_of :: "surroundings \<Rightarrow> string \<Rightarrow> string" where
  "header_of o' body = ''sha256='' @ o_hmac o' (encode (signing_secret (o_settings o'))) body"

text \<open>The service can read what the simulation writes, and accepts its signature.\<close>

definition readable :: "surroundings \<Rightarrow> (json \<Rightarrow> string) \<Rightarrow> sim_payload \<Rightarrow> bool" where
  "readable o' dumps p \<longleftrightarrow> o_loads o' (dumps (payload_json p)) = Inr (payload_json p)
     \<and> int (length (dumps (payload_json p))) \<le> max_webhook_body_bytes (o_settings o')
     \<and> length (sp_event_id p) \<le> 128 \<and> sp_event_id p \<noteq> []"

definition trusting :: "surroundings \<Rightarrow> bool" where
  "trusting o' \<longleftrightarrow> hex_digest (o_hmac o') \<and> signing_secret (o_settings o') \<noteq> []
     \<and> utc_representable (o_fromisoformat o')"

lemma validate_payload:
  assumes "length (sp_event_id p) \<le> 128" "sp_event_id p \<noteq> []"
  shows "validate_event (payload_json p) = Some \<lparr>we_event_id = sp_event_id p,
    we_event_type = event_comment_created, we_sent_at = Some (sp_sent_at p),
    we_data = \<lparr>wd_comment_id = Some (sp_comment_id p), wd_post_id = Some ''post_sim'',
      wd_text = Some (sp_text p), wd_created_at = Some (sp_created_at p),
      wd_from = Some \<lparr>wu_user_id = Some (sp_user_id p), wu_username = Some (''u_'' @ sp_user_id p)\<rparr>\<rparr>\<rparr>"
proof -
  have "Suc 0 \<le> length (sp_event_id p)" using assms(2) by (cases "sp_event_id p") auto
  with assms(1) show ?thesis
    by (simp add: validate_event_def payload_json_def str_field_def opt_str_field_def validate_data_def
        validate_from_def validate_user_def event_comment_created_def)
qed

lemma delivery_contents:
  assumes "readable o' dumps p" "trusting o'"
    and "db_ok d" "set (contents d) \<subseteq> payload_content ` Q" "inj_on sp_event_id Q" "p \<in> Q"
  shows "set (contents (fst (receive_webhook (o_hmac o') (o_loads o') (o_fromisoformat o') (o_settings o')
      None now (dumps (payload_json p)) (Some (header_of o' (dumps (payload_json p)))) d)))
    = insert (payload_content p) (set (contents d))"
proof -
  let ?s = "o_settings o'" and ?body = "dumps (payload_json p)"
  have sig: "verify_signature (o_hmac o') (signing_secret ?s) ?body (Some (header_of o' ?body)) = Inr True"
    using header_accepted[of "o_hmac o'" "signing_secret ?s" ?body] assms(2)
    by (simp add: trusting_def header_of_def signature_header_value_def signature_prefix_def compute_signature_def)
  obtain v where v: "validate_event (payload_json p) = Some v" "we_event_id v = sp_event_id p"
    "we_event_type v = event_comment_created" "wd_text (we_data v) = Some (sp_text p)"
    "\<exists>u. wd_from (we_data v) = Some u \<and> wu_user_id u = Some (sp_user_id p)"
    using validate_payload[of p] assms(1) by (auto simp: readable_def)
  have obj: "\<exists>kvs. payload_json p = JObj kvs" by (simp add: payload_json_def)
  obtain ts where ts: "parse_iso8601 (o_fromisoformat o') (we_sent_at v) = Inr ts"
    using parse_iso8601_ok assms(2) unfolding trusting_def by blast
  let ?post = "\<lambda>d. fst (receive_webhook (o_hmac o') (o_loads o') (o_fromisoformat o') ?s None now ?body (Some (header_of o' ?body)) d)"
  have post: "?post d = (case ingest_event (o_fromisoformat o') ?s v now d of Inl e \<Rightarrow> d | Inr (d', r) \<Rightarrow> d')"
    using assms(1) sig obj v(1)
    by (auto simp: receive_webhook_def readable_def Let_def store_event_def session_scope_def
        split: sum.splits prod.splits)
  show ?thesis
  proof (cases rule: ingest_event_cases[OF ts, of d ?s now])
    case 1
    then obtain e where e: "e \<in> set (d_events d)" "e_event_id e = sp_event_id p" using v(2) by auto
    define c where "c = content e"
    have "c \<in> set (contents d)" using e(1) by (simp add: c_def contents_def)
    moreover have "fst c = sp_event_id p" using e(2) by (simp add: c_def content_def)
    ultimately have c: "c \<in> set (contents d)" "fst c = sp_event_id p" by blast+
    from c(1) obtain q where "q \<in> Q" "c = payload_content q" using assms(4) by auto
    with c(2) assms(5,6) have "c = payload_content p" by (auto simp: payload_content_def dest: inj_onD)
    with c(1) 1(2) post show ?thesis by (simp add: contents_def insert_absorb)
  next
    case (2 pk)
    have "content ((new_event v ts now)\<lparr>e_id := pk\<rparr>) = payload_content p"
      using v(2-5) by (auto simp: content_def new_event_def payload_content_def Let_def)
    with 2(3) post show ?thesis by (auto simp: contents_def)
  qed
qed

definition arrivals :: "sys_label list \<Rightarrow> (py_exc option \<times> string \<times> string option) list" where
  "arrivals ls = List.map_filter arrival ls"

definition sent_posts :: "surroundings \<Rightarrow> (json \<Rightarrow> string) \<Rightarrow> sim_payload list \<Rightarrow> (py_exc option \<times> string \<times> string option) list" where
  "sent_posts o' dumps ps = map (\<lambda>p. (None, dumps (payload_json p), Some (header_of o' (dumps (payload_json p))))) ps"

lemma sys_run_contents:
  assumes "good_settings (o_settings o')" "trusting o'" "inj_on sp_event_id Q" "\<forall>p \<in> Q. readable o' dumps p"
    and "sys_run o' ls x = Some y" "sys_inv o' x" "arrivals ls = sent_posts o' dumps ps" "set ps \<subseteq> Q"
    and "set (contents (s_db x)) \<subseteq> payload_content ` Q"
  shows "set (contents (s_db y)) = set (contents (s_db x)) \<union> payload_content ` set ps"
  using assms(5-9)
proof (induction ls arbitrary: x ps)
  case Nil
  then show ?case by (simp add: arrivals_def sent_posts_def map_filter_simps)
next
  case (Cons lab ls)
  obtain x' where x': "sys_do o' lab x = Some x'" "sys_run o' ls x' = Some y"
    using Cons.prems(1) by (auto split: option.splits)
  have inv: "sys_inv o' x'"
    using sys_step_inv[OF assms(1) _ Cons.prems(2)] x'(1) by (simp add: sys_step_def)
  show ?case
  proof (cases "arrival lab")
    case None
    have same: "contents (s_db x') = contents (s_db x)" by (rule sys_do_contents[OF x'(1) None])
    have "arrivals ls = sent_posts o' dumps ps"
      using Cons.prems(3) None by (simp add: arrivals_def map_filter_simps)
    from Cons.IH[OF x'(2) inv this Cons.prems(4)] Cons.prems(5) same show ?thesis by simp
  next
    case (Some a)
    then obtain storage now body hdr where lab: "lab = DELIVERY storage now body hdr"
      by (cases lab) auto
    obtain p ps' where ps: "ps = p # ps'" "arrivals ls = sent_posts o' dumps ps'"
      and a: "storage = None" "body = dumps (payload_json p)" "hdr = Some (header_of o' body)"
      using Cons.prems(3) lab by (cases ps) (auto simp: arrivals_def sent_posts_def map_filter_simps)
    have "s_db x' = fst (receive_webhook (o_hmac o') (o_loads o') (o_fromisoformat o') (o_settings o')
        None now (dumps (payload_json p)) (Some (header_of o' (dumps (payload_json p)))) (s_db x))"
      using x'(1) lab a by auto
    then have new: "set (contents (s_db x')) = insert (payload_content p) (set (contents (s_db x)))"
      using delivery_contents[OF _ assms(2) _ Cons.prems(5) assms(3)] assms(4) Cons.prems(2,4) ps(1)
      by (simp add: sys_inv_def)
    from Cons.IH[OF x'(2) inv ps(2)] Cons.prems(4,5) ps(1) new show ?thesis by auto
  qed
qed

section \<open>The truth\<close>

lemma batch_rules: "d_rules (fst (process_pending_events faults limit now d)) = d_rules d"
proof -
  have "d_rules (fst (process_loop faults es now h d)) = d_rules d" for es h d
    by (induction es arbitrary: d h)
      (auto simp: process_event_frame release_event_def split: event_fault.splits)
  then show ?thesis by (simp add: process_pending_events_def split_beta claim_pending_events_def)
qed

lemma sys_run_rules:
  assumes "\<not> count_duplicate_events_as_blocked (o_settings o')" "good_settings (o_settings o')"
    and "sys_run o' ls x = Some y" "sys_inv o' x" "\<not> list_ex is_RULE ls"
  shows "d_rules (s_db y) = d_rules (s_db x)"
  using assms(3-5)
proof (induction ls arbitrary: x)
  case (Cons lab ls)
  obtain x' where x': "sys_do o' lab x = Some x'" "sys_run o' ls x' = Some y"
    using Cons.prems(1) by (auto split: option.splits)
  have inv: "sys_inv o' x'"
    using sys_step_inv[OF assms(2) _ Cons.prems(2)] x'(1) by (simp add: sys_step_def)
  have "db_ok (s_db x)" "\<not> is_RULE lab" using Cons.prems(2,3) by (simp_all add: sys_inv_def)
  from sys_do_quiet[OF x'(1) this assms(1)] have "d_rules (s_db x') = d_rules (s_db x)"
    by (elim disjE exE) (simp add: quiet_def, simp only: batch_rules)
  with Cons.IH[OF x'(2) inv] Cons.prems(3) show ?case by simp
qed simp

lemma one_rule_matches:
  assumes "d_rules d = [r]" "r_is_active r = 1" "r_keyword_normalized r = lower keyword"
    and "content e = payload_content p" "sp_user_id p \<noteq> []" "sp_text p \<noteq> []"
  shows "event_matches d e = (if sim_matches keyword p then [r] else [])"
  using assms by (simp add: event_matches_def content_def payload_content_def given_def
      find_matching_rules_def active_rules_def sim_matches_def)

lemma sum_list_indicator: "sum_list (map (\<lambda>e. int (length (if P e then [r] else []))) es) = int (length (filter P es))"
  by (induction es) auto

lemma tally_of_events:
  assumes "d_rules d = [r]" "r_is_active r = 1" "r_keyword_normalized r = lower keyword"
    and "set (contents d) = payload_content ` Q" "inj_on sp_event_id Q"
    and "\<forall>p \<in> Q. sp_user_id p \<noteq> [] \<and> sp_text p \<noteq> []" "db_ok d"
  shows "card (matched_pairs d (d_events d)) = card (sp_user_id ` {p \<in> Q. sim_matches keyword p})"
    and "match_total d (d_events d) = int (card (sp_event_id ` {p \<in> Q. sim_matches keyword p}))"
proof -
  let ?M = "{p \<in> Q. sim_matches keyword p}"
  define P where "P e \<longleftrightarrow> (\<exists>p \<in> ?M. content e = payload_content p)" for e
  have ex: "\<exists>p \<in> Q. content e = payload_content p" if "e \<in> set (d_events d)" for e
    using that assms(4) by (auto simp: contents_def)
  have stored: "\<exists>e \<in> set (d_events d). content e = payload_content p" if "p \<in> Q" for p
    using that assms(4) unfolding contents_def by (metis (no_types, lifting) image_iff list.set_map)
  have inj: "p = q" if "p \<in> Q" "q \<in> Q" "payload_content p = payload_content q" for p q
    using that assms(5) by (auto simp: payload_content_def dest: inj_onD)
  have m: "event_matches d e = (if P e then [r] else [])" if e: "e \<in> set (d_events d)" for e
  proof -
    obtain p where p: "p \<in> Q" "content e = payload_content p" using ex[OF e] by blast
    have "P e \<longleftrightarrow> sim_matches keyword p" using p inj unfolding P_def by auto
    with one_rule_matches[OF assms(1-3) p(2)] assms(6) p(1) show ?thesis by simp
  qed
  have u: "the (e_user_id e) = sp_user_id p \<and> e_event_id e = sp_event_id p"
    if "content e = payload_content p" for e p
    using that by (simp add: content_def payload_content_def)
  have "matched_pairs d (d_events d) = (\<lambda>e. (r_id r, the (e_user_id e))) ` {e \<in> set (d_events d). P e}"
    by (auto simp: matched_pairs_def event_pairs_def m split: if_splits)
  also have "\<dots> = Pair (r_id r) ` sp_user_id ` ?M"
  proof
    show "(\<lambda>e. (r_id r, the (e_user_id e))) ` {e \<in> set (d_events d). P e} \<subseteq> Pair (r_id r) ` sp_user_id ` ?M"
      using u unfolding P_def by fastforce
    show "Pair (r_id r) ` sp_user_id ` ?M \<subseteq> (\<lambda>e. (r_id r, the (e_user_id e))) ` {e \<in> set (d_events d). P e}"
    proof clarify
      fix p assume p: "p \<in> Q" "sim_matches keyword p"
      obtain e where e: "e \<in> set (d_events d)" "content e = payload_content p" using stored[OF p(1)] by blast
      then have "P e" using p by (auto simp: P_def)
      with e(1) u[OF e(2)] show "(r_id r, sp_user_id p) \<in> (\<lambda>e. (r_id r, the (e_user_id e))) ` {e \<in> set (d_events d). P e}"
        by (intro image_eqI[of _ _ e]) auto
    qed
  qed
  finally show "card (matched_pairs d (d_events d)) = card (sp_user_id ` ?M)"
    by (simp add: card_image inj_on_def)
  have "match_total d (d_events d) = int (length (filter P (d_events d)))"
    unfolding match_total_def sum_list_indicator[of P r, symmetric]
    by (rule arg_cong[where f = sum_list]) (simp add: m)
  also have "length (filter P (d_events d)) = card (e_event_id ` {e \<in> set (d_events d). P e})"
  proof -
    have "distinct (map e_event_id (filter P (d_events d)))"
      using assms(7) by (simp add: db_ok_def uq_events_event_id_def distinct_map_filter)
    then show ?thesis by (metis distinct_card length_map list.set_map set_filter)
  qed
  also have "e_event_id ` {e \<in> set (d_events d). P e} = sp_event_id ` ?M"
  proof
    show "e_event_id ` {e \<in> set (d_events d). P e} \<subseteq> sp_event_id ` ?M"
      using u unfolding P_def by fastforce
    show "sp_event_id ` ?M \<subseteq> e_event_id ` {e \<in> set (d_events d). P e}"
    proof clarify
      fix p assume p: "p \<in> Q" "sim_matches keyword p"
      obtain e where e: "e \<in> set (d_events d)" "content e = payload_content p" using stored[OF p(1)] by blast
      then have "P e" using p by (auto simp: P_def)
      with e(1) u[OF e(2)] show "sp_event_id p \<in> e_event_id ` {e \<in> set (d_events d). P e}"
        by (intro image_eqI[of _ _ e]) auto
    qed
  qed
  finally show "match_total d (d_events d) = int (card (sp_event_id ` ?M))" .
qed

text \<open>A world that keeps what was posted; the replies are arbitrary.\<close>

definition recording ::
  "(nat \<Rightarrow> nat option) \<Rightarrow> (py_exc option \<times> string \<times> string option) list \<Rightarrow> string \<Rightarrow> string
     \<Rightarrow> (py_exc option \<times> string \<times> string option) list \<times> nat option" where
  "recording replies w body header = (w @ [(None, body, Some header)], replies (length w))"

lemma sim_loop_posts:
  assumes "sim_loop (o_hmac o') dumps (recording replies) (signing_secret (o_settings o')) run_id keyword i drs t run w
    = (t', run', w')"
  shows "w' = w @ sent_posts o' dumps (posted run_id keyword i drs t)"
  using assms
proof (induction drs arbitrary: i t run w)
  case Nil
  then show ?case by (simp add: sent_posts_def)
next
  case (Cons dr drs)
  obtain p t1 where p: "sim_payload_of run_id keyword i dr t = (p, t1)" by fastforce
  let ?w = "w @ [(None, dumps (payload_json p), Some (header_of o' (dumps (payload_json p))))]"
  have "sim_loop (o_hmac o') dumps (recording replies) (signing_secret (o_settings o')) run_id keyword (i + 1) drs
      (sim_count keyword p t1) (count_reply (replies (length w)) run) ?w = (t', run', w')"
    using Cons.prems p by (simp add: Let_def recording_def[of replies w] header_of_def)
  from Cons.IH[OF this] p show ?case by (simp add: sent_posts_def)
qed

lemma all_delivered_stats:
  assumes "\<forall>j \<in> set (d_jobs d). j_status j = DELIVERED"
  shows "failed (compute_stats d) = 0" "queued (compute_stats d) = 0"
proof -
  have "count_where (\<lambda>j. j_status j = st) (d_jobs d) = 0" if "st \<noteq> DELIVERED" for st
    using assms that by (simp add: count_where_zero)
  then show "failed (compute_stats d) = 0" "queued (compute_stats d) = 0"
    by (simp_all add: compute_stats_def by_status_def pending_job_statuses_def)
qed

lemma stats_are_the_truth:
  assumes "good_settings (o_settings o')" and "\<not> count_duplicate_events_as_blocked (o_settings o')"
    and "trusting o'"
    and "sys_run o' ls0 (sys_start o' t0) = Some x0" "fresh (s_db x0)"
    and "get_counter DUPLICATES_BLOCKED (s_db x0) = 0"
    and "d_rules (s_db x0) = [r]" "r_is_active r = 1" "r_keyword_normalized r = lower keyword"
    and "run_simulation (o_hmac o') dumps (recording replies) (signing_secret (o_settings o')) keyword drs
           (new_run run_id) [] = (run, arrivals ls)"
    and "\<forall>p \<in> set (posted run_id keyword 0 drs new_tally). readable o' dumps p"
    and "sys_run o' ls x0 = Some x" "\<not> list_ex is_RULE ls"
    and "\<forall>e \<in> set (d_events (s_db x)). finished e" "\<forall>j \<in> set (d_jobs (s_db x)). j_status j = DELIVERED"
  shows "\<exists>tr. simulate_truth (Some run) = Ok 200 tr \<and> tr_finished_sending tr
     \<and> tr_expected tr = compute_stats (s_db x)"
proof -
  let ?Q = "set (posted run_id keyword 0 drs new_tally)"
  let ?M = "{p \<in> ?Q. sim_matches keyword p}"
  obtain t run1 w' where loop: "sim_loop (o_hmac o') dumps (recording replies) (signing_secret (o_settings o'))
      run_id keyword 0 drs new_tally (new_run run_id) [] = (t, run1, w')" by (metis prod.collapse)
  have run: "run = run1\<lparr>sr_finished := True, sr_matching_deliveries := Some (ta_deliveries t),
      sr_unique_matching_events := Some (int (card (ta_event_ids t))),
      sr_unique_matching_users := Some (int (card (ta_users t)))\<rparr>" and w: "arrivals ls = w'"
    using assms(10) loop by (auto simp: run_simulation_def new_run_def)
  have posts: "arrivals ls = sent_posts o' dumps (posted run_id keyword 0 drs new_tally)"
    using sim_loop_posts[OF loop] w by simp
  have tally: "ta_users t = sp_user_id ` ?M" "ta_event_ids t = sp_event_id ` ?M"
    using sim_loop_tally[OF loop] by (simp_all add: new_tally_def)
  have inv0: "sys_inv o' x0" by (rule sys_run_inv[OF assms(1,4)])
  have "sys_run o' (ls0 @ ls) (sys_start o' t0) = Some x" by (simp add: sys_run_append assms(4,12))
  then have ok: "db_ok (s_db x)" using sys_run_inv[OF assms(1)] by (simp add: sys_inv_def)
  have none: "set (contents (s_db x0)) = {}" using assms(5) by (simp add: fresh_def contents_def)
  have cont: "set (contents (s_db x)) = payload_content ` ?Q"
    using sys_run_contents[OF assms(1,3) posted_ok(1) assms(11,12) inv0 posts] none by simp
  have rules: "d_rules (s_db x) = [r]" using sys_run_rules[OF assms(2,1,12) inv0 assms(13)] assms(7) by simp
  have good: "\<forall>p \<in> ?Q. sp_user_id p \<noteq> [] \<and> sp_text p \<noteq> []"
  proof
    fix p assume "p \<in> ?Q"
    then obtain i dr where "p = new_payload run_id keyword i dr" using posted_ok(2) by blast
    then show "sp_user_id p \<noteq> [] \<and> sp_text p \<noteq> []" by (simp add: new_payload_def)
  qed
  have "event_comment_deleted \<notin> e_event_type ` set (d_events (s_db x))"
  proof
    assume "event_comment_deleted \<in> e_event_type ` set (d_events (s_db x))"
    then obtain e where e: "e \<in> set (d_events (s_db x))" "e_event_type e = event_comment_deleted" by auto
    then have "content e \<in> payload_content ` ?Q" using cont by (auto simp: contents_def)
    with e(2) show False
      by (auto simp: content_def payload_content_def event_comment_created_def event_comment_deleted_def)
  qed
  then have nd: "no_deletions (s_db x)" by (simp add: no_deletions_def)
  have fin: "filter finished (d_events (s_db x)) = d_events (s_db x)" using assms(14) by (simp add: filter_id_conv)
  note stats = accounted_stats[OF ok sys_run_accounted[OF assms(2,1,12) inv0 fresh_accounted[OF assms(5)] assms(13) nd]]
  note card = tally_of_events[OF rules assms(8,9) cont posted_ok(1) good ok]
  have "sent (compute_stats (s_db x)) = int (card (ta_users t))"
    using stats all_delivered_stats[OF assms(15)] card(1) fin tally(1) by simp
  moreover have "duplicates_blocked (compute_stats (s_db x)) = int (card (ta_event_ids t)) - int (card (ta_users t))"
    using stats card fin tally assms(6) by simp
  ultimately show ?thesis
    using all_delivered_stats[OF assms(15)] run
    by (simp add: simulate_truth_def or_zero_def Let_def)
qed


lemma arrivals_deliveries:
  "arrivals (map (\<lambda>(storage, body, hdr). DELIVERY storage now body hdr) xs @ ls) = xs @ arrivals ls"
  by (induction xs) (auto simp: arrivals_def map_filter_simps)

text \<open>Two users' worth of draws: a comment, another one of the same user, a redelivery.\<close>

definition sim_draws :: "sim_draw list" where
  "sim_draws = [\<lparr>sd_redelivery = 0, sd_choice = 0, sd_match = 0, sd_user = 1, sd_time = ''t''\<rparr>,
     \<lparr>sd_redelivery = 1, sd_choice = 0, sd_match = 0, sd_user = 1, sd_time = ''t''\<rparr>,
     \<lparr>sd_redelivery = 0, sd_choice = 3, sd_match = 0, sd_user = 0, sd_time = ''t''\<rparr>]"

definition sim_dumps :: "json \<Rightarrow> string" where
  "sim_dumps v = (case v of JObj ((_, JStr i) # _) \<Rightarrow> i | _ \<Rightarrow> [])"

definition sim_loads :: "string \<Rightarrow> json res" where
  "sim_loads body =
     (if body = ''evt_sim_run_0'' then Inr (payload_json (new_payload ''run'' ''PRICE'' 0 (sim_draws ! 0)))
      else if body = ''evt_sim_run_1'' then Inr (payload_json (new_payload ''run'' ''PRICE'' 1 (sim_draws ! 1)))
      else Inl ValueError)"

definition sim_demo :: surroundings where
  "sim_demo = \<lparr>o_settings = keyed_settings, o_hmac = hmac_example, o_loads = sim_loads,
     o_fromisoformat = iso_plain\<rparr>"

definition sim_posts :: "sim_payload list" where
  "sim_posts = posted ''run'' ''PRICE'' 0 sim_draws new_tally"

definition sim_result :: "sim_run \<times> (py_exc option \<times> string \<times> string option) list" where
  "sim_result = run_simulation hmac_example sim_dumps (recording (\<lambda>_. Some 200))
     (signing_secret keyed_settings) ''PRICE'' sim_draws (new_run ''run'') []"

definition sim_labels :: "sys_label list" where
  "sim_labels = map (\<lambda>(storage, body, hdr). DELIVERY storage 12 body hdr) (snd sim_result)
     @ [BATCH (\<lambda>_. NO_FAULT) 50 14, CLAIM 15, TURN True 2, SEND, RESPONSE demo_accepted 0 16,
        POLL 1 (JStr ''delivered'') 0 17]"

definition sim_rules :: sys where
  "sim_rules = the (sys_run sim_demo twice_setup (sys_start sim_demo 0))"

definition sim_end :: sys where
  "sim_end = the (sys_run sim_demo sim_labels sim_rules)"

lemma sim_evaluates:
  "case sys_run sim_demo twice_setup (sys_start sim_demo 0) of None \<Rightarrow> False
   | Some x \<Rightarrow> d_events (s_db x) = [] \<and> d_jobs (s_db x) = [] \<and> d_deleted (s_db x) = []
       \<and> get_counter DUPLICATES_BLOCKED (s_db x) = 0
       \<and> map (\<lambda>r. (r_is_active r, r_keyword_normalized r)) (d_rules (s_db x)) = [(1, lower ''PRICE'')]
       \<and> (case sys_run sim_demo sim_labels x of None \<Rightarrow> False
          | Some y \<Rightarrow> list_all finished (d_events (s_db y))
              \<and> list_all (\<lambda>j. j_status j = DELIVERED) (d_jobs (s_db y))
              \<and> duplicates_blocked (compute_stats (s_db y)) = 1)"
  by code_simp

lemma sim_runs:
  "sys_run sim_demo twice_setup (sys_start sim_demo 0) = Some sim_rules"
  "sys_run sim_demo sim_labels sim_rules = Some sim_end"
proof -
  show a: "sys_run sim_demo twice_setup (sys_start sim_demo 0) = Some sim_rules"
    using sim_evaluates by (auto simp: sim_rules_def split: option.splits)
  show "sys_run sim_demo sim_labels sim_rules = Some sim_end"
    using sim_evaluates unfolding a by (auto simp: sim_end_def split: option.splits)
qed

lemmas sim_facts = sim_evaluates[unfolded sim_runs option.case list_all_iff]

lemma sim_demo_ok:
  "good_settings (o_settings sim_demo)" "\<not> count_duplicate_events_as_blocked (o_settings sim_demo)"
  "trusting sim_demo"
proof -
  show "good_settings (o_settings sim_demo)" by (simp add: sim_demo_def good_default)
  show "\<not> count_duplicate_events_as_blocked (o_settings sim_demo)"
    by (simp add: sim_demo_def keyed_settings_def default_settings_simps)
  have "utc_representable iso_plain"
    by (auto simp: utc_representable_def iso_plain_def in_time_range_def max_time_def split: if_splits)
  moreover have "signing_secret keyed_settings \<noteq> []" by code_simp
  ultimately show "trusting sim_demo" using hex_digest_example by (simp add: trusting_def sim_demo_def)
qed


end
