(* ===== verification/Loops.thy ===== *)
theory Loops
  imports Manager
begin

text \<open>
  The endless loops of the four background tasks: \<open>EventWorker.run_forever\<close>,
  \<open>DMWorker.run_forever\<close>, \<open>WorkerManager._reconcile_forever\<close> and
  \<open>WorkerManager._maintenance_forever\<close>.  A loop runs over its turns; a turn holds what the
  outside chooses for one iteration (the input of its body, whether the stop event is set
  meanwhile, how the pause after it ends).  The locales state what the loops share.
\<close>

section \<open>Waiting for the stop event\<close>

datatype wait_input = W_TIMEOUT | W_STOP | W_CANCEL

datatype wait_exc = W_TimeoutError | W_CancelledError

text \<open>\<open>asyncio.wait_for(stop_event.wait(), timeout)\<close>: the state of the event afterwards, and what
  is raised.\<close>

definition wait_for_event :: "bool \<Rightarrow> wait_input \<Rightarrow> bool \<times> wait_exc option" where
  "wait_for_event stop w = (if stop then (True, None) else
     (case w of W_TIMEOUT \<Rightarrow> (False, Some W_TimeoutError)
      | W_STOP \<Rightarrow> (True, None) | W_CANCEL \<Rightarrow> (False, Some W_CancelledError)))"

definition worker_wait :: "bool \<Rightarrow> wait_input \<Rightarrow> bool \<times> wait_exc option" where
  "worker_wait stop w = (case wait_for_event stop w of
       (stop', Some W_TimeoutError) \<Rightarrow> (stop', None) | r \<Rightarrow> r)"

lemma worker_wait_eq [simp]: "worker_wait stop w =
    (if stop then (True, None) else (w = W_STOP, if w = W_CANCEL then Some W_CancelledError else None))"
  by (cases w) (simp_all add: worker_wait_def wait_for_event_def)

section \<open>The loop\<close>

text \<open>How an iteration of the body ends: \<open>UNFINISHED\<close> is one that still waits for the limiter.\<close>

datatype 'r iteration_end = RETURNED 'r | RAISED py_exc | WAS_CANCELLED | UNFINISHED

datatype loop_end = L_RUNNING | L_STOPPED | L_CANCELLED

record 'i turn =
  t_input :: 'i
  t_stop :: bool
  t_wait :: wait_input

text \<open>
  \<open>while not stop: try: r = run_once() except CancelledError: raise except Exception: r = default\<close>,
  then the pause of \<open>pause r\<close> seconds, if any.  The result has the pauses the loop began.
\<close>

fun run_forever ::
  "('i \<Rightarrow> 's \<Rightarrow> 's \<times> 'r iteration_end) \<Rightarrow> 'r \<Rightarrow> ('r \<Rightarrow> rat option) \<Rightarrow> 'i turn list \<Rightarrow> bool \<Rightarrow> 's
     \<Rightarrow> 's \<times> loop_end \<times> rat list"
where
  "run_forever once dflt pause [] stop st = (st, if stop then L_STOPPED else L_RUNNING, [])"
| "run_forever once dflt pause (t # ts) stop st =
     (if stop then (st, L_STOPPED, []) else
        (case once (t_input t) st of
           (st', WAS_CANCELLED) \<Rightarrow> (st', L_CANCELLED, [])
         | (st', UNFINISHED) \<Rightarrow> (st', L_RUNNING, [])
         | (st', a) \<Rightarrow>
             (case pause (case a of RETURNED v \<Rightarrow> v | _ \<Rightarrow> dflt) of
                Some seconds \<Rightarrow>
                  (case worker_wait (t_stop t) (t_wait t) of
                     (stop', Some _) \<Rightarrow> (st', L_CANCELLED, [seconds])
                   | (stop', None) \<Rightarrow> (case run_forever once dflt pause ts stop' st' of
                        (st2, e, ps) \<Rightarrow> (st2, e, seconds # ps)))
              | None \<Rightarrow> run_forever once dflt pause ts (t_stop t) st')))"

definition ends_itself :: "'r iteration_end \<Rightarrow> bool" where
  "ends_itself a \<longleftrightarrow> (case a of RETURNED _ \<Rightarrow> True | RAISED _ \<Rightarrow> True | _ \<Rightarrow> False)"

text \<open>Nothing from outside ends the loop in such a turn.\<close>

definition calm :: "('i \<Rightarrow> bool) \<Rightarrow> 'i turn \<Rightarrow> bool" where
  "calm Q t \<longleftrightarrow> Q (t_input t) \<and> \<not> t_stop t \<and> t_wait t = W_TIMEOUT"

locale worker_loop =
  fixes once :: "'i \<Rightarrow> 's \<Rightarrow> 's \<times> 'r iteration_end" and dflt :: 'r and pause :: "'r \<Rightarrow> rat option"
    and undisturbed :: "'i \<Rightarrow> bool"
  assumes no_cancel: "undisturbed i \<Longrightarrow> snd (once i st) \<noteq> WAS_CANCELLED"
begin

lemma never_ends:
  "list_all (calm undisturbed) ts \<Longrightarrow> fst (snd (run_forever once dflt pause ts False st)) = L_RUNNING"
proof (induction ts arbitrary: st)
  case (Cons t ts)
  obtain st' a where o: "once (t_input t) st = (st', a)" by fastforce
  have "a \<noteq> WAS_CANCELLED" "\<not> t_stop t" "t_wait t = W_TIMEOUT"
    using no_cancel[of "t_input t" st] o Cons.prems by (auto simp: calm_def)
  with Cons show ?case by (cases a) (simp_all add: o split_beta split: option.split)
qed simp

lemma stops: "run_forever once dflt pause ts True st = (st, L_STOPPED, [])"
  by (cases ts) simp_all

end

text \<open>A loop whose iterations end by themselves makes every turn; one that always pauses never
  spins.\<close>

locale finishing_loop = worker_loop +
  assumes ends: "undisturbed i \<Longrightarrow> ends_itself (snd (once i st))"
begin

lemma survives:
  assumes "list_all (calm undisturbed) ts"
  shows "\<exists>ps. run_forever once dflt pause ts False st
     = (fold (\<lambda>t st. fst (once (t_input t) st)) ts st, L_RUNNING, ps)
     \<and> (\<forall>q. (\<forall>r. pause r = Some q) \<longrightarrow> ps = replicate (length ts) q)"
  using assms
proof (induction ts arbitrary: st)
  case (Cons t ts)
  obtain st' a where o: "once (t_input t) st = (st', a)" by fastforce
  have t: "ends_itself a" "\<not> t_stop t" "t_wait t = W_TIMEOUT"
    using ends[of "t_input t" st] o Cons.prems by (simp_all add: calm_def)
  from Cons.IH[of st'] Cons.prems obtain ps where
    "run_forever once dflt pause ts False st' = (fold (\<lambda>t st. fst (once (t_input t) st)) ts st', L_RUNNING, ps)"
    "\<forall>q. (\<forall>r. pause r = Some q) \<longrightarrow> ps = replicate (length ts) q" by auto
  with t show ?case
    by (cases a; auto simp: o ends_itself_def split: option.split; metis option.distinct(1))
qed simp

end

text \<open>What one iteration keeps, the loop keeps: \<open>keep\<close> when it has ended, \<open>inv\<close> at any time.\<close>

locale steady_loop =
  fixes once :: "'i \<Rightarrow> 's \<Rightarrow> 's \<times> 'r iteration_end" and inv :: "'s \<Rightarrow> bool" and keep :: "'s \<Rightarrow> 's \<Rightarrow> bool"
  assumes once_inv: "inv st \<Longrightarrow> inv (fst (once i st))"
    and keep_refl: "keep st st"
    and keep_trans: "keep st st1 \<Longrightarrow> keep st1 st2 \<Longrightarrow> keep st st2"
    and once_keep: "inv st \<Longrightarrow> snd (once i st) \<noteq> UNFINISHED \<Longrightarrow> keep st (fst (once i st))"
begin

lemma loop_keeps:
  assumes "inv st" "run_forever once dflt pause ts stop st = (st', e, ps)"
  shows "inv st' \<and> (e \<noteq> L_RUNNING \<longrightarrow> keep st st')"
  using assms
proof (induction ts arbitrary: st stop ps)
  case Nil
  then show ?case using keep_refl by auto
next
  case (Cons t ts)
  show ?case
  proof (cases stop)
    case True
    then show ?thesis using Cons.prems keep_refl by auto
  next
    case run: False
    obtain st1 a where o: "once (t_input t) st = (st1, a)" by fastforce
    have inv1: "inv st1" using once_inv[OF Cons.prems(1), of "t_input t"] o by simp
    have keep1: "a \<noteq> UNFINISHED \<Longrightarrow> keep st st1"
      using once_keep[OF Cons.prems(1), of "t_input t"] o by simp
    have rest: ?thesis
      if "a \<noteq> UNFINISHED" "run_forever once dflt pause ts stop' st1 = (st', e, ps')" for stop' ps'
      using Cons.IH[OF inv1 that(2)] keep_trans[OF keep1[OF that(1)]] by blast
    show ?thesis
      using Cons.prems(2) run o inv1 keep1 rest
      by (cases a) (auto split: if_splits option.splits prod.splits)
  qed
qed

end

section \<open>The four loops\<close>

text \<open>
  An iteration that awaits \<open>asyncio.to_thread\<close> can be cancelled before its thread has started
  (\<open>BEFORE_THREAD\<close>) or after, and then the thread runs on.
\<close>

datatype thread_cancel = NO_CANCEL | BEFORE_THREAD | THREAD_RUNS_ON

definition in_thread ::
  "thread_cancel \<Rightarrow> py_exc option \<Rightarrow> ('d \<Rightarrow> 'd \<times> 'r res) \<Rightarrow> 'd \<Rightarrow> 'd \<times> 'r iteration_end" where
  "in_thread c storage f d =
     (if c = BEFORE_THREAD then (d, WAS_CANCELLED)
      else case (case storage of Some e \<Rightarrow> (d, Inl e) | None \<Rightarrow> f d) of
             (d', r) \<Rightarrow> (d', if c = THREAD_RUNS_ON then WAS_CANCELLED
                            else case r of Inl e \<Rightarrow> RAISED e | Inr v \<Rightarrow> RETURNED v))"

text \<open>\<open>storage\<close> is an error of the database that rolls the first transaction back.\<close>

record event_input =
  ei_storage :: "py_exc option"
  ei_faults :: "nat \<Rightarrow> event_fault"
  ei_now :: time
  ei_cancel :: thread_cancel

definition event_run_once :: "nat \<Rightarrow> event_input \<Rightarrow> db \<Rightarrow> db \<times> nat iteration_end" where
  "event_run_once batch_size inp =
     in_thread (ei_cancel inp) (ei_storage inp) (event_worker_process (ei_faults inp) batch_size (ei_now inp))"

definition event_pause :: "settings \<Rightarrow> nat \<Rightarrow> nat \<Rightarrow> rat option" where
  "event_pause s batch_size handled =
     (if handled < batch_size then Some (event_poll_interval_seconds s) else None)"

definition event_run_forever ::
  "settings \<Rightarrow> nat \<Rightarrow> event_input turn list \<Rightarrow> bool \<Rightarrow> db \<Rightarrow> db \<times> loop_end \<times> rat list" where
  "event_run_forever s batch_size = run_forever (event_run_once batch_size) 0 (event_pause s batch_size)"

record dm_input =
  di_storage :: "py_exc option"
  di_run :: worker_input

definition dm_iteration ::
  "settings \<Rightarrow> ('w \<Rightarrow> send_request \<Rightarrow> 'w \<times> http_reply) \<Rightarrow> dm_input \<Rightarrow> 'w \<times> limiter \<times> db
     \<Rightarrow> ('w \<times> limiter \<times> db) \<times> bool iteration_end" where
  "dm_iteration s post inp st =
     (case (if configured s then di_storage inp else None) of
        Some e \<Rightarrow> (st, RAISED e)
      | None \<Rightarrow> (case dm_run_once s post (di_run inp) st of
            (st', IDLE) \<Rightarrow> (st', RETURNED False)
          | (st', DONE _) \<Rightarrow> (st', RETURNED True)
          | (st', CANCELLED_RUN) \<Rightarrow> (st', WAS_CANCELLED)
          | (st', WAITING) \<Rightarrow> (st', UNFINISHED)))"

definition dm_pause :: "settings \<Rightarrow> bool \<Rightarrow> rat option" where
  "dm_pause s did_work = (if did_work then None else Some (worker_poll_interval_seconds s))"

definition dm_run_forever ::
  "settings \<Rightarrow> ('w \<Rightarrow> send_request \<Rightarrow> 'w \<times> http_reply) \<Rightarrow> dm_input turn list \<Rightarrow> bool
     \<Rightarrow> 'w \<times> limiter \<times> db \<Rightarrow> ('w \<times> limiter \<times> db) \<times> loop_end \<times> rat list" where
  "dm_run_forever s post = run_forever (dm_iteration s post) False (dm_pause s)"

text \<open>The poller can be cancelled at any of its awaits: after \<open>k\<close> of the pending jobs.\<close>

record poll_input =
  pi_storage :: "py_exc option"
  pi_draws :: "nat \<Rightarrow> rat"
  pi_times :: "nat \<Rightarrow> time"
  pi_meanwhile :: "nat \<Rightarrow> db \<Rightarrow> db"
  pi_cancel :: "nat option"

definition poll_iteration ::
  "settings \<Rightarrow> nat \<Rightarrow> ('w \<Rightarrow> string \<Rightarrow> 'w \<times> http_reply) \<Rightarrow> poll_input \<Rightarrow> 'w \<times> db
     \<Rightarrow> ('w \<times> db) \<times> nat iteration_end" where
  "poll_iteration s batch_size get inp = (\<lambda>(w, d).
     case pi_storage inp of
       Some e \<Rightarrow> ((w, d), RAISED e)
     | None \<Rightarrow>
         (case pi_cancel inp of
            None \<Rightarrow>
              (case reconcile_once s batch_size get (pi_draws inp) (pi_times inp) (pi_meanwhile inp) w d of
                 (st, Inl e) \<Rightarrow> (st, RAISED e) | (st, Inr n) \<Rightarrow> (st, RETURNED n))
          | Some k \<Rightarrow>
              (case reconcile_loop s get (pi_draws inp) (pi_times inp) (pi_meanwhile inp)
                      (take k (load_pending batch_size d)) 0 w d of
                 (st, Inl e) \<Rightarrow> (st, RAISED e) | (st, Inr _) \<Rightarrow> (st, WAS_CANCELLED))))"

definition reconcile_forever ::
  "settings \<Rightarrow> nat \<Rightarrow> ('w \<Rightarrow> string \<Rightarrow> 'w \<times> http_reply) \<Rightarrow> poll_input turn list \<Rightarrow> bool
     \<Rightarrow> 'w \<times> db \<Rightarrow> ('w \<times> db) \<times> loop_end \<times> rat list" where
  "reconcile_forever s batch_size get = run_forever (poll_iteration s batch_size get) 0
     (\<lambda>_. Some (delivery_poll_interval_seconds s))"

record maintain_input =
  mi_storage :: "py_exc option"
  mi_now :: time
  mi_cancel :: thread_cancel

definition maintain_iteration :: "settings \<Rightarrow> maintain_input \<Rightarrow> db \<Rightarrow> db \<times> unit iteration_end" where
  "maintain_iteration s inp =
     in_thread (mi_cancel inp) (mi_storage inp) (manager_requeue_stale s (mi_now inp))"

definition maintenance_forever ::
  "settings \<Rightarrow> maintain_input turn list \<Rightarrow> bool \<Rightarrow> db \<Rightarrow> db \<times> loop_end \<times> rat list" where
  "maintenance_forever s = run_forever (maintain_iteration s) () (\<lambda>_. Some (maintenance_interval s))"

section \<open>No failure ends a loop\<close>

lemma in_thread_ends:
  "c = NO_CANCEL \<Longrightarrow> ends_itself (snd (in_thread c storage f d))"
  "c = NO_CANCEL \<Longrightarrow> snd (in_thread c storage f d) \<noteq> WAS_CANCELLED"
  by (auto simp: in_thread_def ends_itself_def split: prod.splits sum.splits)

interpretation event_loop: finishing_loop "event_run_once batch_size" 0 "event_pause s batch_size"
  "\<lambda>i. ei_cancel i = NO_CANCEL" for s batch_size
  by unfold_locales (simp_all add: event_run_once_def in_thread_ends)

lemma dm_run_not_cancelled:
  "wi_cancel inp = NOT_CANCELLED \<Longrightarrow> snd (dm_run_once s post inp st) \<noteq> CANCELLED_RUN"
  by (cases st) (auto simp: dm_run_once_def Let_def split: prod.splits option.splits sum.splits)

interpretation dm_loop: worker_loop "dm_iteration s post" False "dm_pause s"
  "\<lambda>i. wi_cancel (di_run i) = NOT_CANCELLED" for s post
proof
  show "snd (dm_iteration s post i st) \<noteq> WAS_CANCELLED" if "wi_cancel (di_run i) = NOT_CANCELLED" for s post i st
    using dm_run_not_cancelled[OF that, of s post st]
    by (auto simp: dm_iteration_def split: option.splits prod.splits run_result.splits)
qed

interpretation poll_loop: finishing_loop "poll_iteration s batch_size get" 0
  "\<lambda>_. Some (delivery_poll_interval_seconds s)"
  "\<lambda>i. pi_cancel i = None" for s batch_size get
  by unfold_locales
    (auto simp: poll_iteration_def ends_itself_def split: option.splits prod.splits sum.splits)

interpretation maintenance_loop: finishing_loop "maintain_iteration s" "()" "\<lambda>_. Some (maintenance_interval s)"
  "\<lambda>i. mi_cancel i = NO_CANCEL" for s
  by unfold_locales (simp_all add: maintain_iteration_def in_thread_ends)


definition bad_event_turn :: "event_input turn" where
  "bad_event_turn = \<lparr>t_input = \<lparr>ei_storage = Some DatabaseError, ei_faults = (\<lambda>_. NO_FAULT), ei_now = 6,
     ei_cancel = NO_CANCEL\<rparr>, t_stop = False, t_wait = W_TIMEOUT\<rparr>"

definition good_event_turn :: "event_input turn" where
  "good_event_turn = bad_event_turn\<lparr>t_input := (t_input bad_event_turn)\<lparr>ei_storage := None\<rparr>\<rparr>"


section \<open>When the send worker has ended\<close>

text \<open>Nobody is being sent a message who was not before.\<close>

definition no_new_claim :: "'w \<times> limiter \<times> db \<Rightarrow> 'w \<times> limiter \<times> db \<Rightarrow> bool" where
  "no_new_claim = (\<lambda>(w, l, d) (w', l', d').
     \<forall>k j. get_job k d' = Some j \<and> j_status j = SENDING \<longrightarrow> get_job k d = Some j)"

definition db_of :: "'w \<times> limiter \<times> db \<Rightarrow> db" where
  "db_of st = snd (snd st)"

lemma dm_run_once_db_ok:
  assumes "db_ok d" "dm_run_once s post inp (w, l, d) = ((w', l', d'), res)" shows "db_ok d'"
proof (cases "\<not> configured s \<or> snd (dm_claim (wi_claim_time inp) d) = None")
  case True
  with dm_run_once_idle[OF assms(2,1)] assms(1) show ?thesis by simp
next
  case False
  then obtain d1 c where c: "dm_claim (wi_claim_time inp) d = (d1, Some c)"
    by (metis option.exhaust prod.collapse)
  obtain l2 d2 g where acq: "acquire (wi_readings inp) (l, d1) = ((l2, d2), g)" by (metis prod.collapse)
  have "db_ok d1" using dm_claim_someE[OF assms(1) c] by (metis touches_def)
  then have "db_ok d2" using acquire_frame(3)[of d1 "wi_readings inp" l] acq by simp
  with dm_run_once_ends[OF assms(2) c _ acq] False show ?thesis
    by (auto intro: release_claim_db_ok dm_apply_db_ok)
qed

interpretation dm_steady: steady_loop "dm_iteration s post" "\<lambda>st. db_ok (db_of st)" no_new_claim
  for s :: settings and post :: "'w \<Rightarrow> send_request \<Rightarrow> 'w \<times> http_reply"
proof
  fix st st1 st2 :: "'w \<times> limiter \<times> db" and i :: dm_input
  show "no_new_claim st st" by (simp add: no_new_claim_def split_beta)
  show "no_new_claim st st2" if "no_new_claim st st1" "no_new_claim st1 st2"
    using that by (simp add: no_new_claim_def split_beta)
  obtain w l d where st: "st = (w, l, d)" by (cases st)
  obtain w' l' d' r where run: "dm_run_once s post (di_run i) (w, l, d) = ((w', l', d'), r)"
    by (metis prod.collapse)
  assume ok: "db_ok (db_of st)"
  then have okd: "db_ok d" by (simp add: st db_of_def)
  have cases: "(\<exists>e. dm_iteration s post i st = (st, RAISED e))
      \<or> (fst (dm_iteration s post i st) = (w', l', d') \<and> (snd (dm_iteration s post i st) = UNFINISHED \<longleftrightarrow> r = WAITING))"
    using run by (auto simp: dm_iteration_def st split: run_result.splits option.splits)
  show "db_ok (db_of (fst (dm_iteration s post i st)))"
    using cases ok dm_run_once_db_ok[OF okd run] by (auto simp: db_of_def)
  show "no_new_claim st (fst (dm_iteration s post i st))" if "snd (dm_iteration s post i st) \<noteq> UNFINISHED"
    using cases that dm_run_once_strands_nothing[OF okd run] by (auto simp: no_new_claim_def st)
qed

lemma ended_loop_leaves_no_claim:
  assumes "db_ok d" and "dm_run_forever s post ts stop (w, l, d) = ((w', l', d'), e, ps)" and "e \<noteq> L_RUNNING"
  shows "db_ok d' \<and> (\<nexists>k j. get_job k d' = Some j \<and> j_status j = SENDING \<and> get_job k d \<noteq> Some j)"
  using dm_steady.loop_keeps[of "(w, l, d)" s post] assms
  by (fastforce simp: dm_run_forever_def db_of_def no_new_claim_def)

text \<open>
  Stopping the send worker leaves nothing in flight.  However many iterations the loop made
  and wherever the last one was cancelled (waiting, sending, writing or pausing), once the loop
  has ended no job is \<open>sending\<close> that was not when it began, so a restart has nothing of this
  worker to recover; the constraints of the database hold.
\<close>

theorem stopped_worker_leaves_no_claim:
  assumes "db_ok d" and "dm_run_forever s post ts stop (w, l, d) = ((w', l', d'), e, ps)" and "e \<noteq> L_RUNNING"
  shows "db_ok d' \<and> (\<nexists>k j. get_job k d' = Some j \<and> j_status j = SENDING \<and> get_job k d \<noteq> Some j)"
  by (rule ended_loop_leaves_no_claim[OF assms])

definition turn_of :: "cancellation \<Rightarrow> dm_input turn" where
  "turn_of c = \<lparr>t_input = \<lparr>di_storage = None, di_run = plain_input\<lparr>wi_cancel := c\<rparr>\<rparr>, t_stop = False,
     t_wait = W_TIMEOUT\<rparr>"

theorem stopped_worker_leaves_no_claim_witness:
  "fst (snd (dm_run_forever keyed_settings (logging_server (\<lambda>_. OtherException)) [turn_of (IN_SEND True)] False
        ([], new_limiter 10 60 0 True, db2))) = L_CANCELLED
   \<and> \<not> list_ex (\<lambda>j. j_status j = SENDING) (d_jobs (snd (snd (fst (dm_run_forever keyed_settings
        (logging_server (\<lambda>_. OtherException)) [turn_of (IN_SEND True)] False ([], new_limiter 10 60 0 True, db2))))))"
proof -
  let ?run = "dm_run_forever keyed_settings (logging_server (\<lambda>_. OtherException)) [turn_of (IN_SEND True)] False
        ([], new_limiter 10 60 0 True, db2)"
  obtain w' l' d' e ps where run: "?run = ((w', l', d'), e, ps)" by (metis prod.collapse)
  have e: "fst (snd ?run) = L_CANCELLED" by code_simp
  have ok: "db_ok db2" by (rule db2_ok)
  have none: "get_job k db2 \<noteq> Some j" if "j_status j = SENDING" for k j
  proof -
    have "list_all (\<lambda>j. j_status j \<noteq> SENDING) (d_jobs db2)" by code_simp
    with that show ?thesis using get_job_SomeD by (fastforce simp: list_all_iff)
  qed
  from stopped_worker_leaves_no_claim[OF ok run] e run none
  have "db_ok d'" "\<And>k j. get_job k d' = Some j \<Longrightarrow> j_status j \<noteq> SENDING" by auto
  then have "j_status j \<noteq> SENDING" if "j \<in> set (d_jobs d')" for j
    using that get_job_iff by blast
  with e run show ?thesis by (simp add: list_ex_iff)
qed

end
