(* ===== verification/Draining.thy ===== *)
theory Draining
  imports Loops Evolution
begin

text \<open>
  The send worker empties the queue.  \<open>open_work\<close> is what the budgets still allow for the jobs
  that wait; every iteration that finds a job uses some of it, as long as the server does not
  throttle.
\<close>

section \<open>The work that is left\<close>

definition waiting :: "job \<Rightarrow> bool" where
  "waiting j \<longleftrightarrow> j_status j \<in> {QUEUED, RETRY_WAIT}"

definition attempts_left :: "settings \<Rightarrow> job \<Rightarrow> nat" where
  "attempts_left s j =
     (if waiting j then nat (max 1 (max_dm_attempts s - int (j_transient_failures j))) else 0)"

definition open_work :: "settings \<Rightarrow> db \<Rightarrow> nat" where
  "open_work s d = sum_list (map (attempts_left s) (d_jobs d))"

lemma sum_list_replace_by:
  fixes f :: "'a \<Rightarrow> nat"
  assumes "distinct (map key xs)" "x \<in> set xs" "key y = key x"
  shows "sum_list (map f (replace_by key y xs)) + f x = sum_list (map f xs) + f y"
  using assms
proof (induction xs)
  case (Cons z xs)
  show ?case
  proof (cases "z = x")
    case True
    then have "key x \<notin> key ` set xs" using Cons.prems(1) by simp
    then have "replace_by key y xs = xs"
      using Cons.prems(3) by (auto simp: replace_by_def update_where_def image_iff intro!: map_idI)
    with True Cons.prems(3) show ?thesis by (simp add: replace_by_def update_where_Cons)
  next
    case False
    then have x: "x \<in> set xs" "key z \<noteq> key x" using Cons.prems by auto
    with Cons.IH Cons.prems(1,3) show ?thesis by (simp add: replace_by_def update_where_Cons)
  qed
qed simp

lemma open_work_replace:
  assumes "db_ok d" "get_job i d = Some j" "j_id j' = i" "d_jobs d' = replace_by j_id j' (d_jobs d)"
  shows "open_work s d' + attempts_left s j = open_work s d + attempts_left s j'"
  using assms get_job_SomeD[OF assms(2)] sum_list_replace_by[of j_id "d_jobs d" j j' "attempts_left s"]
  by (simp add: open_work_def db_ok_def)

text \<open>An answer that uses an attempt up or ends the job.\<close>

lemma attempt_used:
  assumes "send_transition s u now r j = Inr j'" "send_label r \<noteq> L_THROTTLE" "waiting j"
  shows "attempts_left s j' < attempts_left s j"
proof -
  let ?k = "j\<lparr>j_status := SENDING, j_updated_at := j_updated_at j\<rparr>"
  have "send_transition s u now r ?k = Inr j'" by (rule send_transition_any_status[OF assms(1)])
  from send_transition_step[OF this] have "step_of s (abs_job ?k) (send_label r) (abs_job j')" by simp
  moreover have "send_label r \<in> {L_ACCEPT, L_TRANSIENT, L_REJECT}"
    using assms(2) by (auto simp: send_label_def split: send_outcome.splits)
  ultimately show ?thesis
    using assms(3) by (auto simp: abs_job_def attempts_left_def waiting_def elim!: sending_stepE)
qed

section \<open>One iteration\<close>

definition answers_usefully :: "settings \<Rightarrow> int \<Rightarrow> ('w \<Rightarrow> send_request \<Rightarrow> 'w \<times> http_reply) \<Rightarrow> bool" where
  "answers_usefully s b post \<longleftrightarrow> (\<forall>w rq. \<exists>w' r. send_dm s post w rq = (w', Inr r)
     \<and> text_result r \<and> delays_within b s r \<and> send_label r \<noteq> L_THROTTLE)"

definition undisturbed_run :: "int \<Rightarrow> worker_input \<Rightarrow> bool" where
  "undisturbed_run b i \<longleftrightarrow> wi_cancel i = NOT_CANCELLED \<and> 0 \<le> wi_draw i \<and> wi_draw i \<le> 1
     \<and> 0 \<le> wi_apply_time i \<and> wi_apply_time i + b * 1000000 < max_time"

lemma acquire_calls:
  assumes "acquire cs (l, d) = ((l', d'), g)" "1 \<le> rl_max_calls l"
  shows "rl_max_calls l' = rl_max_calls l \<and> (\<exists>o'. g = Inr o')"
  using assms
proof (induction cs arbitrary: l d)
  case (Cons c cs)
  obtain ok now where c: "c = (ok, now)" by (cases c)
  have trim: "rl_max_calls (trim now l) = rl_max_calls l" by (simp add: trim_def)
  show ?case
    by (cases rule: acquire_once_cases[of now l ok d])
      (use Cons trim in \<open>auto simp: c\<close>)
qed auto

lemma run_uses_attempt:
  assumes "db_ok d" "1 \<le> rl_max_calls l" "answers_usefully s b post" "undisturbed_run b inp"
    and "dm_run_once s post inp (w, l, d) = ((w', l', d'), res)"
  shows "db_ok d' \<and> rl_max_calls l' = rl_max_calls l
     \<and> (if res = IDLE then d' = d else open_work s d' < open_work s d)"
proof (cases "\<not> configured s \<or> snd (dm_claim (wi_claim_time inp) d) = None")
  case True
  with dm_run_once_idle[OF assms(5,1)] assms(1) show ?thesis by simp
next
  case False
  then obtain d1 c where c: "dm_claim (wi_claim_time inp) d = (d1, Some c)"
    by (metis option.exhaust prod.collapse)
  let ?now = "wi_claim_time inp"
  obtain k where k: "claim_next_job ?now d = (d1, Some k)" "c = claimed_of k"
    using c by (auto simp: dm_claim_def split: prod.splits option.splits)
  from claim_next_job_step[OF assms(1), of ?now] k(1) obtain j where
    j: "j \<in> set (d_jobs d)" "runnable ?now j" "k = j\<lparr>j_status := SENDING, j_updated_at := ?now\<rparr>"
      "d1 = d\<lparr>d_jobs := replace_by j_id k (d_jobs d)\<rparr>" by auto
  have j': "get_job (j_id j) d = Some j" "waiting j" "cl_id c = j_id j"
    using j(1-3) assms(1) k(2) by (auto simp: get_job_iff runnable_def waiting_def claimed_of_def)
  have left: "attempts_left s j \<noteq> 0" "attempts_left s k = 0"
    using j' j(3) by (simp_all add: attempts_left_def waiting_def)
  obtain l2 d2 g where acq: "acquire (wi_readings inp) (l, d1) = ((l2, d2), g)" by (metis prod.collapse)
  from acquire_calls[OF acq assms(2)] obtain o' where g: "g = Inr o'" "rl_max_calls l2 = rl_max_calls l" by blast
  have ok1: "db_ok d1" using dm_claim_someE[OF assms(1) c] by (metis touches_def)
  have d2: "d_jobs d2 = d_jobs d1" "db_ok d2"
    using acquire_frame(1)[of "wi_readings inp" l d1] acquire_frame(3)[OF ok1, of "wi_readings inp" l] acq
    by simp_all
  have calm: "wi_cancel inp = NOT_CANCELLED" using assms(4) by (simp add: undisturbed_run_def)
  note body = assms(5)[unfolded dm_run_once_def split_conv c Let_def acq option.case prod.case calm cancellation.simps]
  show ?thesis
  proof (cases o')
    case None
    have "open_work s d2 + attempts_left s j = open_work s d + attempts_left s k"
      by (rule open_work_replace[OF assms(1) j'(1)]) (simp_all add: j(3,4) d2(1))
    then have "open_work s d2 < open_work s d" using left by simp
    with body False g None d2(2) show ?thesis by auto
  next
    case (Some t)
    obtain w2 r where send: "send_dm s post w (request_of c) = (w2, Inr r)" "text_result r"
      "delays_within b s r" "send_label r \<noteq> L_THROTTLE"
      using assms(3) unfolding answers_usefully_def by blast
    have k': "get_job (cl_id c) d2 = Some k"
      using j(1,3,4) j'(3) d2(1) by (auto simp: get_job_def intro!: find_by_replace_by_same)
    have T: "0 \<le> wi_draw inp" "wi_draw inp \<le> 1" "0 \<le> wi_apply_time inp"
      "wi_apply_time inp + b * 1000000 < max_time"
      using assms(4) by (auto simp: undisturbed_run_def)
    let ?store = "dm_apply s (wi_draw inp) (wi_apply_time inp) (cl_id c) r d2"
    obtain k2 where k2: "send_transition s (wi_draw inp) (wi_apply_time inp) r k = Inr k2"
      using send_transition_possible[OF send(2,3) T] by blast
    have id2: "j_id k2 = j_id j" using send_transition_identity[OF k2] j(3) by simp
    have "flush_job k2 d2 = Inr (d2\<lparr>d_jobs := replace_by j_id k2 (d_jobs d2)\<rparr>)"
      using send_transition_identity[OF k2] get_job_SomeD[OF k'] j(3)
      by (intro flush_live_job[OF d2(2)]) (auto simp: holds_slot_def)
    then have store: "?store = (d2\<lparr>d_jobs := replace_by j_id k2 (d_jobs d2)\<rparr>, Inr ())"
      using k2 by (simp add: dm_apply_def session_scope_def k' apply_send_result_def)
    have d': "d' = fst ?store" "l' = l2" "res \<noteq> IDLE"
      using body False g Some send(1) store by (auto split: if_splits)
    have "d_jobs d' = replace_by j_id k2 (d_jobs d)"
      using d'(1) store d2(1) j(3,4) id2 by (simp add: replace_by_twice)
    from open_work_replace[OF assms(1) j'(1) id2 this, of s]
    have "open_work s d' + attempts_left s j = open_work s d + attempts_left s k2" .
    moreover have "send_transition s (wi_draw inp) (wi_apply_time inp) r j = Inr k2"
      using send_transition_any_status[OF k2, of "j_updated_at j" "j_status j"] j(3) by simp
    then have "attempts_left s k2 < attempts_left s j" by (rule attempt_used[OF _ send(4) j'(2)])
    moreover have "db_ok d'" using d'(1) dm_apply_db_ok[OF d2(2)] by simp
    ultimately show ?thesis using d' g(2) by auto
  qed
qed

section \<open>Many iterations\<close>

fun dm_turns ::
  "settings \<Rightarrow> ('w \<Rightarrow> send_request \<Rightarrow> 'w \<times> http_reply) \<Rightarrow> worker_input list \<Rightarrow> 'w \<times> limiter \<times> db
     \<Rightarrow> ('w \<times> limiter \<times> db) \<times> run_result list" where
  "dm_turns s post [] st = (st, [])"
| "dm_turns s post (i # is) st =
     (let (st1, r) = dm_run_once s post i st; (st2, rs) = dm_turns s post is st1 in (st2, r # rs))"

lemma working_turns_bounded:
  assumes "db_ok d" "1 \<le> rl_max_calls l" "answers_usefully s b post" "list_all (undisturbed_run b) is"
  shows "length (filter (\<lambda>r. r \<noteq> IDLE) (snd (dm_turns s post is (w, l, d)))) \<le> open_work s d"
  using assms(1,2,4)
proof (induction "is" arbitrary: w l d)
  case (Cons i "is")
  obtain w1 l1 d1 r where run: "dm_run_once s post i (w, l, d) = ((w1, l1, d1), r)" by (metis prod.collapse)
  have "undisturbed_run b i" using Cons.prems(3) by simp
  from run_uses_attempt[OF Cons.prems(1,2) assms(3) this run] Cons.IH[of d1 l1 w1] Cons.prems(2,3)
  show ?case by (auto simp: run split_beta Let_def split: if_splits)
qed simp

lemma idle_means_empty:
  assumes "db_ok d" "configured s" "dm_run_once s post inp (w, l, d) = (st', IDLE)"
  shows "\<not> list_ex (runnable (wi_claim_time inp)) (d_jobs d)"
proof -
  have "snd (dm_claim (wi_claim_time inp) d) = None"
  proof (rule ccontr)
    assume "snd (dm_claim (wi_claim_time inp) d) \<noteq> None"
    then obtain d1 c where c: "dm_claim (wi_claim_time inp) d = (d1, Some c)"
      by (metis option.exhaust prod.collapse)
    show False
      using assms(2,3) by (auto simp: dm_run_once_def c Let_def split: if_splits prod.splits sum.splits
          option.splits cancellation.splits bool.splits)
  qed
  then have "snd (claim_next_job (wi_claim_time inp) d) = None" by (simp add: dm_claim_frame)
  with claim_next_job_step[OF assms(1), of "wi_claim_time inp"] show ?thesis
    by (cases "claim_next_job (wi_claim_time inp) d") (auto simp: list_ex_iff)
qed

lemma open_work_le: "open_work s d \<le> count_where waiting (d_jobs d) * nat (max 1 (max_dm_attempts s))"
proof -
  have "sum_list (map (attempts_left s) js) \<le> count_where waiting js * nat (max 1 (max_dm_attempts s))" for js
  proof (induction js)
    case (Cons j js)
    have "attempts_left s j \<le> (if waiting j then nat (max 1 (max_dm_attempts s)) else 0)"
      by (auto simp: attempts_left_def intro: nat_mono)
    with Cons.IH show ?case by (auto simp: count_where_def algebra_simps)
  qed (simp add: count_where_def)
  then show ?thesis by (simp add: open_work_def)
qed


definition accepting_server :: "unit \<Rightarrow> send_request \<Rightarrow> unit \<times> http_reply" where
  "accepting_server w rq = (w, Response \<lparr>hr_status_code = 202, hr_retry_after = None,
     hr_json = Some (JObj [(''dm_id'', JStr ''dm_1'')]), hr_text = []\<rparr>)"

lemma accepting_server_useful: "answers_usefully keyed_settings 400 accepting_server"
  by (simp add: answers_usefully_def accepting_server_def send_dm_def keyed_settings_def configured_def
      classify_send_def safe_json_def dict_get_def dict_get_default_def blank_result_def text_result_def
      is_text_def delays_within_def default_settings_simps send_label_def)


end
