(* ===== verification/Database.thy ===== *)
theory Database
  imports Config
begin

text \<open>
  The state of the process that \<^verbatim>\<open>app/database.py\<close> and \<^verbatim>\<open>app/config.py\<close> keep in module
  variables: the cached settings, the engine and the session factory.  What \<open>create_engine\<close>
  makes of a URL is SQLAlchemy's: \<open>usable\<close> says which error it raises, if any.  The environment
  is the result \<open>env\<close> of \<open>Settings()\<close> at the moment of the call.
\<close>

section \<open>Engines\<close>

text \<open>An engine is known by its number; \<open>en_pragmas\<close> run on every new connection.\<close>

record engine =
  en_number :: nat
  en_url :: string
  en_connect_args :: "(string \<times> json) list"
  en_pragmas :: "string list"

definition sqlite_connect_args :: "(string \<times> json) list" where
  "sqlite_connect_args = [(''check_same_thread'', JBool False), (''timeout'', JInt 30)]"

definition sqlite_pragmas :: "string list" where
  "sqlite_pragmas = [''PRAGMA journal_mode=WAL'', ''PRAGMA synchronous=NORMAL'',
     ''PRAGMA foreign_keys=ON'', ''PRAGMA busy_timeout=30000'']"

definition create_engine_for :: "(string \<Rightarrow> py_exc option) \<Rightarrow> nat \<Rightarrow> string \<Rightarrow> engine res" where
  "create_engine_for usable n url =
     (let connect_args = (if startswith url ''sqlite'' then sqlite_connect_args else [])
      in case usable url of
           Some e \<Rightarrow> Inl e
         | None \<Rightarrow> Inr \<lparr>en_number = n, en_url = url, en_connect_args = connect_args,
               en_pragmas = (if startswith url ''sqlite'' then sqlite_pragmas else [])\<rparr>)"

section \<open>Module variables\<close>

record process =
  pr_settings :: "settings option"
  pr_engine :: "engine option"
  pr_session_factory :: "engine option"
  pr_made :: nat
  pr_disposed :: "nat list"
  pr_schema :: "nat list"

definition new_process :: process where
  "new_process = \<lparr>pr_settings = None, pr_engine = None, pr_session_factory = None, pr_made = 0,
     pr_disposed = [], pr_schema = []\<rparr>"

definition get_settings :: "settings res \<Rightarrow> process \<Rightarrow> process \<times> settings res" where
  "get_settings env p = (case pr_settings p of
       Some s \<Rightarrow> (p, Inr s)
     | None \<Rightarrow> (case env of Inl e \<Rightarrow> (p, Inl e)
                | Inr s \<Rightarrow> (p\<lparr>pr_settings := Some (strip_settings s)\<rparr>, Inr (strip_settings s))))"

definition reset_settings_cache :: "process \<Rightarrow> process" where
  "reset_settings_cache p = p\<lparr>pr_settings := None\<rparr>"

definition get_engine :: "(string \<Rightarrow> py_exc option) \<Rightarrow> settings res \<Rightarrow> process \<Rightarrow> process \<times> engine res" where
  "get_engine usable env p = (case pr_engine p of
       Some e \<Rightarrow> (p, Inr e)
     | None \<Rightarrow> (case get_settings env p of
           (p1, Inl x) \<Rightarrow> (p1, Inl x)
         | (p1, Inr s) \<Rightarrow> (case create_engine_for usable (pr_made p1) (database_url s) of
               Inl x \<Rightarrow> (p1, Inl x)
             | Inr e \<Rightarrow> (p1\<lparr>pr_engine := Some e, pr_made := pr_made p1 + 1\<rparr>, Inr e))))"

text \<open>The factory is known by the engine it is bound to.\<close>

definition get_session_factory ::
  "(string \<Rightarrow> py_exc option) \<Rightarrow> settings res \<Rightarrow> process \<Rightarrow> process \<times> engine res" where
  "get_session_factory usable env p = (case pr_session_factory p of
       Some e \<Rightarrow> (p, Inr e)
     | None \<Rightarrow> (case get_engine usable env p of
           (p1, Inl x) \<Rightarrow> (p1, Inl x)
         | (p1, Inr e) \<Rightarrow> (p1\<lparr>pr_session_factory := Some e\<rparr>, Inr e)))"

text \<open>\<open>create_all\<close> leaves the tables in the database of the engine, unless it raises.\<close>

definition init_db ::
  "(string \<Rightarrow> py_exc option) \<Rightarrow> settings res \<Rightarrow> (engine \<Rightarrow> py_exc option) \<Rightarrow> process \<Rightarrow> process \<times> unit res" where
  "init_db usable env create_all p = (case get_engine usable env p of
       (p1, Inl x) \<Rightarrow> (p1, Inl x)
     | (p1, Inr e) \<Rightarrow> (case create_all e of
           Some x \<Rightarrow> (p1, Inl x)
         | None \<Rightarrow> (p1\<lparr>pr_schema := en_number e # pr_schema p1\<rparr>, Inr ())))"

definition reset_engine :: "process \<Rightarrow> process" where
  "reset_engine p = (case pr_engine p of
       None \<Rightarrow> p\<lparr>pr_engine := None, pr_session_factory := None\<rparr>
     | Some e \<Rightarrow> p\<lparr>pr_disposed := en_number e # pr_disposed p, pr_engine := None, pr_session_factory := None\<rparr>)"

section \<open>One engine at a time\<close>

datatype process_call =
    GET_SETTINGS | RESET_SETTINGS | GET_ENGINE | GET_FACTORY | INIT_DB "engine \<Rightarrow> py_exc option" | RESET_ENGINE

fun process_do :: "(string \<Rightarrow> py_exc option) \<Rightarrow> settings res \<times> process_call \<Rightarrow> process \<Rightarrow> process" where
  "process_do usable (env, GET_SETTINGS) p = fst (get_settings env p)"
| "process_do usable (env, RESET_SETTINGS) p = reset_settings_cache p"
| "process_do usable (env, GET_ENGINE) p = fst (get_engine usable env p)"
| "process_do usable (env, GET_FACTORY) p = fst (get_session_factory usable env p)"
| "process_do usable (env, INIT_DB create_all) p = fst (init_db usable env create_all p)"
| "process_do usable (env, RESET_ENGINE) p = reset_engine p"

text \<open>On SQLite, and only there, connections set the pragmas and may cross threads.\<close>

definition connects_rightly :: "engine \<Rightarrow> bool" where
  "connects_rightly e \<longleftrightarrow> (en_pragmas e = sqlite_pragmas \<longleftrightarrow> startswith (en_url e) ''sqlite'')
     \<and> (en_connect_args e = sqlite_connect_args \<longleftrightarrow> startswith (en_url e) ''sqlite'')"

definition process_ok :: "process \<Rightarrow> bool" where
  "process_ok p \<longleftrightarrow> (\<forall>e. pr_session_factory p = Some e \<longrightarrow> pr_engine p = Some e)
     \<and> (\<forall>e. pr_engine p = Some e \<longrightarrow> en_number e < pr_made p \<and> en_number e \<notin> set (pr_disposed p)
          \<and> connects_rightly e)
     \<and> (\<forall>n \<in> set (pr_disposed p). n < pr_made p)"

lemma get_settings_keeps:
  "pr_engine (fst (get_settings env p)) = pr_engine p"
  "pr_session_factory (fst (get_settings env p)) = pr_session_factory p"
  "pr_made (fst (get_settings env p)) = pr_made p" "pr_disposed (fst (get_settings env p)) = pr_disposed p"
  by (simp_all add: get_settings_def split: option.splits sum.splits)

lemma get_engine_cases:
  obtains (cached) e where "pr_engine p = Some e" "get_engine usable env p = (p, Inr e)"
    | (failed) x where "pr_engine p = None" "get_engine usable env p = (fst (get_settings env p), Inl x)"
    | (made) s e where "pr_engine p = None" "snd (get_settings env p) = Inr s"
        "create_engine_for usable (pr_made p) (database_url s) = Inr e"
        "get_engine usable env p = ((fst (get_settings env p))\<lparr>pr_engine := Some e, pr_made := pr_made p + 1\<rparr>, Inr e)"
proof (cases "pr_engine p")
  case None
  obtain p1 r where g: "get_settings env p = (p1, r)" by fastforce
  have n: "pr_made p1 = pr_made p" using get_settings_keeps(3)[of env p] g by simp
  show ?thesis
  proof (cases r)
    case (Inl x)
    then show ?thesis using None g by (intro failed[of x]) (simp_all add: get_engine_def)
  next
    case (Inr s)
    show ?thesis
    proof (cases "create_engine_for usable (pr_made p) (database_url s)")
      case (Inl x)
      then show ?thesis using None g n \<open>r = Inr s\<close> by (intro failed[of x]) (simp_all add: get_engine_def)
    next
      case e: (Inr e)
      then show ?thesis using None g n \<open>r = Inr s\<close> by (intro made[of s e]) (simp_all add: get_engine_def)
    qed
  qed
qed (simp add: cached get_engine_def)

lemma create_engine_forD:
  "create_engine_for usable n url = Inr e \<Longrightarrow> en_number e = n \<and> en_url e = url \<and> connects_rightly e"
  by (auto simp: connects_rightly_def create_engine_for_def Let_def sqlite_pragmas_def sqlite_connect_args_def split: option.splits if_splits)

lemma get_engine_ok:
  assumes "process_ok p"
  shows "process_ok (fst (get_engine usable env p))
     \<and> (\<forall>e. snd (get_engine usable env p) = Inr e \<longrightarrow> pr_engine (fst (get_engine usable env p)) = Some e)"
proof (cases rule: get_engine_cases[of p usable env])
  case cached
  then show ?thesis using assms by simp
next
  case failed
  then show ?thesis using assms by (simp add: process_ok_def get_settings_keeps)
next
  case (made s e)
  then show ?thesis
    using assms create_engine_forD[OF made(3)] by (auto simp: process_ok_def get_settings_keeps)
qed

lemma get_session_factory_ok:
  assumes "process_ok p"
  shows "process_ok (fst (get_session_factory usable env p))
     \<and> (\<forall>e. snd (get_session_factory usable env p) = Inr e \<longrightarrow>
           pr_engine (fst (get_session_factory usable env p)) = Some e)"
proof (cases "pr_session_factory p")
  case None
  obtain p1 r where g: "get_engine usable env p = (p1, r)" by fastforce
  with get_engine_ok[OF assms, of usable env] None show ?thesis
    by (cases r) (auto simp: get_session_factory_def process_ok_def)
next
  case (Some e)
  with assms show ?thesis by (auto simp: get_session_factory_def process_ok_def)
qed

lemma process_do_ok:
  assumes "process_ok p" shows "process_ok (process_do usable c p)"
proof -
  obtain env k where c: "c = (env, k)" by (cases c)
  show ?thesis
  proof (cases k)
    case GET_SETTINGS
    then show ?thesis using assms by (simp add: c process_ok_def get_settings_keeps)
  next
    case RESET_SETTINGS
    then show ?thesis using assms by (simp add: c process_ok_def reset_settings_cache_def)
  next
    case GET_ENGINE
    then show ?thesis using get_engine_ok[OF assms] by (simp add: c)
  next
    case GET_FACTORY
    then show ?thesis using get_session_factory_ok[OF assms] by (simp add: c)
  next
    case (INIT_DB create_all)
    obtain p1 r where g: "get_engine usable env p = (p1, r)" by fastforce
    with get_engine_ok[OF assms, of usable env] show ?thesis
      by (cases r) (auto simp: c INIT_DB init_db_def process_ok_def split: option.splits)
  next
    case RESET_ENGINE
    then show ?thesis
      using assms by (cases "pr_engine p") (auto simp: c process_ok_def reset_engine_def)
  qed
qed

interpretation process_system: invariant_system "\<lambda>p. p = new_process" "\<lambda>p c p'. p' = process_do usable c p" process_ok
  for usable
proof
  show "process_ok p" if "p = new_process" for p using that by (simp add: new_process_def process_ok_def)
  show "process_ok p'" if "p' = process_do usable c p" "process_ok p" for p c p'
    using that process_do_ok by simp
qed

text \<open>
  C29: A session is never opened on an engine that was disposed of, nor on another engine than
  the one the process uses.  After any sequence of calls, in any environment, the session factory
  is bound to the current engine, which is not disposed of; on SQLite, and only there, every
  connection of that engine sets the pragmas and may cross threads.
\<close>

theorem sessions_use_the_live_engine:
  fixes calls :: "(settings res \<times> process_call) list" and usable :: "string \<Rightarrow> py_exc option"
  defines "p \<equiv> fold (process_do usable) calls new_process"
  assumes "snd (get_session_factory usable env p) = Inr e"
  shows "pr_engine (fst (get_session_factory usable env p)) = Some e
     \<and> en_number e \<notin> set (pr_disposed (fst (get_session_factory usable env p)))
     \<and> connects_rightly e"
proof -
  have runs: "process_ok q \<Longrightarrow> process_ok (fold (process_do usable) calls q)" for q
    by (induction calls arbitrary: q) (simp_all add: process_do_ok)
  have start: "process_ok new_process" by (simp add: new_process_def process_ok_def)
  have "process_ok p" unfolding p_def by (rule runs[OF start])
  from get_session_factory_ok[OF this, of usable env] assms(2) show ?thesis
    by (auto simp: process_ok_def)
qed

text \<open>The settings are read once; a new environment counts only after both caches are reset.\<close>

definition other_settings :: settings where
  "other_settings = default_settings\<lparr>database_url := '' postgresql://db ''\<rparr>"

theorem sessions_use_the_live_engine_witness:
  "\<exists>e. snd (get_session_factory (\<lambda>_. None) (Inr other_settings)
          (fold (process_do (\<lambda>_. None))
             [(Inr default_settings, GET_FACTORY), (Inr other_settings, RESET_SETTINGS), (Inr other_settings, RESET_ENGINE)]
             new_process)) = Inr e
     \<and> en_url e = ''postgresql://db'' \<and> en_number e = 1 \<and> en_pragmas e \<noteq> sqlite_pragmas"
proof -
  let ?calls = "[(Inr default_settings, GET_FACTORY), (Inr other_settings, RESET_SETTINGS), (Inr other_settings, RESET_ENGINE)]"
  let ?r = "snd (get_session_factory (\<lambda>_. None) (Inr other_settings)
          (fold (process_do (\<lambda>_. None)) ?calls new_process))"
  have "case ?r of Inl _ \<Rightarrow> False | Inr e \<Rightarrow> en_url e = ''postgresql://db'' \<and> en_number e = 1"
    by code_simp
  then obtain e where e: "?r = Inr e" "en_url e = ''postgresql://db''" "en_number e = 1"
    by (auto split: sum.splits)
  from sessions_use_the_live_engine[OF e(1)] e show ?thesis
    by (auto simp: connects_rightly_def)
qed

text \<open>
  Without the resets neither a new URL nor a new setting is noticed: a warm cache answers
  whatever the environment says.
\<close>

lemma caches_ignore_the_environment:
  assumes "pr_settings p = Some s" "pr_session_factory p = Some e"
  shows "get_settings env p = (p, Inr s)" "get_session_factory usable env p = (p, Inr e)"
  using assms by (simp_all add: get_settings_def get_session_factory_def)

end
