(* ===== verification/Lifecycle.thy ===== *)
theory Lifecycle
  imports Draining Database
begin

text \<open>
  \<open>WorkerManager\<close> and \<open>lifespan\<close>: the background tasks are created at start, cancelled and
  awaited at shutdown; and the HTTP client of \<^verbatim>\<open>app/services/pseudogram.py\<close>, which is opened on
  first use and closed with the manager.
\<close>

section \<open>The HTTP client\<close>

text \<open>The arguments of \<open>httpx.AsyncClient\<close>.\<close>

record http_client =
  hc_base_url :: string
  hc_timeout :: rat
  hc_headers :: "(string \<times> string) list"

definition rstrip_char :: "char \<Rightarrow> string \<Rightarrow> string" where
  "rstrip_char c t = rev (dropWhile (\<lambda>x. x = c) (rev t))"

definition get_client :: "settings \<Rightarrow> http_client option \<Rightarrow> http_client option \<times> http_client" where
  "get_client s client = (case client of
       Some c \<Rightarrow> (client, c)
     | None \<Rightarrow>
         let c = \<lparr>hc_base_url = rstrip_char CHR ''/'' (pseudogram_base_url s),
                  hc_timeout = pseudogram_timeout_seconds s,
                  hc_headers = [(''X-API-Key'', pseudogram_api_key s)]\<rparr>
         in (Some c, c))"

definition client_aclose :: "http_client option \<Rightarrow> http_client option" where
  "client_aclose client = (case client of Some _ \<Rightarrow> None | None \<Rightarrow> client)"

lemma rstrip_char_last: "rstrip_char c t \<noteq> [] \<Longrightarrow> last (rstrip_char c t) \<noteq> c"
  using hd_dropWhile[of "\<lambda>x. x = c" "rev t"] by (simp add: rstrip_char_def last_rev)

section \<open>The manager\<close>

datatype task = TASK_RUNNING | TASK_CANCELLING | TASK_DONE loop_end

record manager =
  mg_settings :: settings
  mg_stop :: bool
  mg_tasks :: "(string \<times> task) list"
  mg_client :: "http_client option"
  mg_limiter :: limiter

definition new_manager :: "settings \<Rightarrow> manager" where
  "new_manager s = \<lparr>mg_settings = s, mg_stop = False, mg_tasks = [], mg_client = None,
     mg_limiter = manager_limiter s\<rparr>"

definition started_tasks :: "(string \<times> task) list" where
  "started_tasks = map (\<lambda>n. (n, TASK_RUNNING)) [''event-worker'', ''dm-worker'', ''reconciler'', ''maintenance'']"

text \<open>\<open>start\<close>: when the recovery raises, nothing was created.\<close>

definition worker_manager_start ::
  "bool \<Rightarrow> rat \<Rightarrow> rat \<Rightarrow> time \<Rightarrow> manager \<times> db \<Rightarrow> (manager \<times> db) \<times> unit res" where
  "worker_manager_start log_ok c1 c2 now = (\<lambda>(m, d).
     case recover_state now d of
       (d1, Inl e) \<Rightarrow> ((m, d1), Inl e)
     | (d1, Inr _) \<Rightarrow>
         (case warm_start log_ok c1 c2 (mg_limiter m, d1) of
            (l, d2) \<Rightarrow> ((m\<lparr>mg_limiter := l, mg_stop := False, mg_tasks := started_tasks\<rparr>, d2), Inr ())))"

definition cancel_task :: "string \<times> task \<Rightarrow> string \<times> task" where
  "cancel_task nt = (case snd nt of TASK_RUNNING \<Rightarrow> (fst nt, TASK_CANCELLING) | _ \<Rightarrow> nt)"

text \<open>\<open>asyncio.gather(..., return_exceptions=True)\<close> returns when every task has ended; \<open>ends\<close> says
  how.\<close>

definition gather :: "(string \<Rightarrow> loop_end) \<Rightarrow> (string \<times> task) list \<Rightarrow> (string \<times> task) list" where
  "gather ends ts = map (\<lambda>(n, t). (n, case t of TASK_DONE e \<Rightarrow> TASK_DONE e | _ \<Rightarrow> TASK_DONE (ends n))) ts"

text \<open>\<open>stop\<close> returns the manager and what its tasks ended with.\<close>

definition worker_manager_stop ::
  "(string \<Rightarrow> loop_end) \<Rightarrow> manager \<Rightarrow> manager \<times> (string \<times> task) list" where
  "worker_manager_stop ends m =
     (let cancelled = map cancel_task (mg_tasks m);
          ended = (if cancelled \<noteq> [] then gather ends cancelled else cancelled)
      in (m\<lparr>mg_stop := True, mg_tasks := [], mg_client := client_aclose (mg_client m)\<rparr>, ended))"

text \<open>\<open>lifespan\<close>: everything before the \<open>yield\<close>, on a database that \<open>init_db\<close> has set up, and
  after it.\<close>

definition lifespan_enter ::
  "settings \<Rightarrow> bool \<Rightarrow> rat \<Rightarrow> rat \<Rightarrow> time \<Rightarrow> db \<Rightarrow> (manager option \<times> db) \<times> unit res" where
  "lifespan_enter s log_ok c1 c2 now d =
     (let d1 = fst (session_scope (\<lambda>d. Inr (seed_counters d, ())) d) in
      if enable_workers s then
        (case worker_manager_start log_ok c1 c2 now (new_manager s, d1) of
           ((m, d2), r) \<Rightarrow> ((Some m, d2), r))
      else ((None, d1), Inr ()))"

definition lifespan_exit ::
  "(string \<Rightarrow> loop_end) \<Rightarrow> manager option \<Rightarrow> manager option \<times> (string \<times> task) list" where
  "lifespan_exit ends app_manager = (case app_manager of
       None \<Rightarrow> (None, [])
     | Some m \<Rightarrow> (case worker_manager_stop ends m of (m', ts) \<Rightarrow> (Some m', ts)))"

lemma lifespan_enter_start:
  "lifespan_start s log_ok c1 c2 now d = (case lifespan_enter s log_ok c1 c2 now d of
      ((m, d'), r) \<Rightarrow> ((map_option mg_limiter m, d'), r))"
proof -
  obtain d1 r where rec: "recover_state now (seed_counters d) = (d1, r)" by fastforce
  obtain l d2 where warm: "warm_start log_ok c1 c2 (manager_limiter s, d1) = (l, d2)" by fastforce
  show ?thesis
    by (cases r) (simp_all add: lifespan_start_def lifespan_enter_def manager_start_def worker_manager_start_def
        session_scope_def new_manager_def Let_def rec warm)
qed

section \<open>Shutting down and starting again\<close>

lemma stop_is_complete:
  assumes "worker_manager_stop ends m = (m', ended)"
  shows "mg_stop m' \<and> mg_tasks m' = [] \<and> mg_client m' = None
     \<and> map fst ended = map fst (mg_tasks m) \<and> (\<forall>(n, t) \<in> set ended. \<exists>e. t = TASK_DONE e)"
proof -
  have same: "map fst (gather ends ts) = map fst ts" "\<forall>(n, t) \<in> set (gather ends ts). \<exists>e. t = TASK_DONE e" for ts
    by (auto simp: gather_def split: task.splits)
  have fst: "fst (cancel_task nt) = fst nt" for nt by (simp add: cancel_task_def split: task.splits)
  show ?thesis
    using assms same[of "map cancel_task (mg_tasks m)"]
    by (auto simp: worker_manager_stop_def Let_def client_aclose_def fst comp_def split: option.splits if_splits)
qed

lemma recovery_without_claims:
  assumes "in_time_range now" "list_all (\<lambda>j. j_status j \<noteq> SENDING) (d_jobs d)"
  shows "d_jobs (fst (recover_state now d)) = d_jobs d"
proof -
  have "update_where (stale now) (\<lambda>j. j\<lparr>j_status := QUEUED, j_updated_at := now\<rparr>) (d_jobs d) = d_jobs d"
    using assms(2) by (auto simp: update_where_def stale_def list_all_iff intro!: map_idI)
  with recover_state_eq[OF assms(1), of d] show ?thesis by auto
qed



end
