(* ===== verification/Scripts.thy ===== *)
theory Scripts
  imports Simulation Lifecycle "HOL-Library.AList"
begin

text \<open>
  The command-line scripts \<^verbatim>\<open>scripts/keygen.py\<close>, \<^verbatim>\<open>scripts/send_test_webhook.py\<close> and the
  comparison of \<^verbatim>\<open>scripts/test_pseudogram.py\<close>.  The parsed arguments, the environment and the
  replies of the servers are arguments; the printed lines and the exit code are the result, and
  an exception nobody catches is the left side.
\<close>

type_synonym script_result = "(string list \<times> string list) \<times> int res"

type_synonym environment = "string \<Rightarrow> string option"

definition getenv :: "environment \<Rightarrow> string \<Rightarrow> string \<Rightarrow> string" where
  "getenv env name dflt = (case env name of None \<Rightarrow> dflt | Some v \<Rightarrow> v)"

definition default_base_url :: string where
  "default_base_url = ''https://pseudogram-api.onrender.com''"

section \<open>The key generator\<close>

definition keygen_main ::
  "(string \<Rightarrow> json \<Rightarrow> http_reply) \<Rightarrow> environment \<Rightarrow> string \<Rightarrow> string option \<Rightarrow> script_result" where
  "keygen_main post env email base_url_arg =
     (let base_url = (case base_url_arg of
            None \<Rightarrow> getenv env ''PSEUDOGRAM_BASE_URL'' default_base_url | Some u \<Rightarrow> u)
      in case post (rstrip_char CHR ''/'' base_url @ ''/v1/keygen'') (JObj [(''email'', JStr email)]) of
           HTTPError _ _ \<Rightarrow> (([], []), Inl TransportException)
         | OtherException \<Rightarrow> (([], []), Inl TransportException)
         | Response h \<Rightarrow>
             if 400 \<le> hr_status_code h then
               (([], [''[FAIL] '' @ int_str (hr_status_code h) @ '': '' @ hr_text h]), Inr 1)
             else (case hr_json h of
                 None \<Rightarrow> (([], []), Inl ValueError)
               | Some (JObj body) \<Rightarrow>
                   if \<not> truthy (dict_get body ''api_key'') then
                     (([], [''[FAIL] unexpected response: '' @ py_str (JObj body)]), Inr 1)
                   else (([''API key received. Store it in .env (never commit it):'' @ [CHR 0x0A],
                           ''PSEUDOGRAM_API_KEY='' @ py_str (dict_get body ''api_key'')], []), Inr 0)
               | Some _ \<Rightarrow> (([], []), Inl AttributeError)))"

text \<open>The key is shown exactly when the script succeeds, and nothing else is then printed.\<close>

lemma keygen_success:
  "snd (keygen_main post env email u) = Inr 0 \<longleftrightarrow>
   (\<exists>key. fst (keygen_main post env email u)
      = ([''API key received. Store it in .env (never commit it):'' @ [CHR 0x0A], ''PSEUDOGRAM_API_KEY='' @ py_str key], [])
      \<and> truthy key)"
  by (auto simp: keygen_main_def Let_def split: http_reply.splits option.splits json.splits)

section \<open>The signed test webhook\<close>

record webhook_args =
  wa_url :: string
  wa_event_id :: "string option"
  wa_event_type :: string
  wa_text :: string
  wa_user_id :: string
  wa_username :: string
  wa_comment_id :: string
  wa_repeat :: nat
  wa_unsigned :: bool

text \<open>The draws of one turn: \<open>uuid.uuid4().hex\<close> and the two formatted readings of the clock.\<close>

record webhook_draw =
  dw_hex :: string
  dw_sent_at :: string
  dw_created_at :: string

definition script_secret :: "environment \<Rightarrow> string" where
  "script_secret env =
     (if getenv env ''WEBHOOK_SIGNING_SECRET'' [] \<noteq> [] then getenv env ''WEBHOOK_SIGNING_SECRET'' []
      else getenv env ''PSEUDOGRAM_API_KEY'' [])"

definition test_payload :: "webhook_args \<Rightarrow> webhook_draw \<Rightarrow> json" where
  "test_payload a dr = JObj [
     (''event_id'', JStr (case wa_event_id a of
        Some i \<Rightarrow> if i \<noteq> [] then i else ''evt_'' @ take 12 (dw_hex dr)
      | None \<Rightarrow> ''evt_'' @ take 12 (dw_hex dr))),
     (''event_type'', JStr (wa_event_type a)), (''sent_at'', JStr (dw_sent_at dr)),
     (''data'', JObj [(''comment_id'', JStr (wa_comment_id a)), (''post_id'', JStr ''post_44de1b''),
        (''text'', JStr (wa_text a)), (''created_at'', JStr (dw_created_at dr)),
        (''from'', JObj [(''user_id'', JStr (wa_user_id a)), (''username'', JStr (wa_username a))])])]"

text \<open>What is posted: the body and the signature header, when there is one.\<close>

definition test_request ::
  "(string \<Rightarrow> string \<Rightarrow> string) \<Rightarrow> (json \<Rightarrow> string) \<Rightarrow> environment \<Rightarrow> webhook_args \<Rightarrow> webhook_draw
     \<Rightarrow> string \<times> string option" where
  "test_request hmac dumps env a dr =
     (let body = dumps (test_payload a dr); secret = script_secret env
      in (body, if secret \<noteq> [] \<and> \<not> wa_unsigned a then Some (signature_header_value hmac secret body) else None))"

fun send_turns ::
  "('w \<Rightarrow> string \<Rightarrow> string \<times> string option \<Rightarrow> 'w \<times> http_reply) \<Rightarrow> (webhook_draw \<Rightarrow> string \<times> string option)
     \<Rightarrow> webhook_args \<Rightarrow> nat \<Rightarrow> webhook_draw list \<Rightarrow> 'w \<Rightarrow> 'w \<times> string list \<times> unit res" where
  "send_turns post request a index [] w = (w, [], Inr ())"
| "send_turns post request a index (dr # drs) w =
     (case post w (rstrip_char CHR ''/'' (wa_url a) @ ''/webhook'') (request dr) of
        (w1, Response h) \<Rightarrow>
          (case send_turns post request a (index + 1) drs w1 of
             (w2, out, r) \<Rightarrow> (w2, (''['' @ nat_str (index + 1) @ ''/'' @ nat_str (wa_repeat a) @ ''] ''
                 @ int_str (hr_status_code h) @ '' '' @ hr_text h) # out, r))
      | (w1, _) \<Rightarrow> (w1, [], Inl TransportException))"

text \<open>\<open>drs\<close> holds one draw per repetition.\<close>

definition send_test_main ::
  "(string \<Rightarrow> string \<Rightarrow> string) \<Rightarrow> (json \<Rightarrow> string) \<Rightarrow> ('w \<Rightarrow> string \<Rightarrow> string \<times> string option \<Rightarrow> 'w \<times> http_reply)
     \<Rightarrow> ('w \<Rightarrow> string \<Rightarrow> 'w \<times> http_reply) \<Rightarrow> environment \<Rightarrow> webhook_args \<Rightarrow> (nat \<Rightarrow> webhook_draw) \<Rightarrow> 'w
     \<Rightarrow> 'w \<times> script_result" where
  "send_test_main hmac dumps post get env a draws w =
     (let warn = (if script_secret env = [] \<and> \<not> wa_unsigned a
                  then [''[WARN] no signing secret in the environment; sending unsigned''] else [])
      in case send_turns post (test_request hmac dumps env a) a 0 (map draws [0..<wa_repeat a]) w of
           (w1, out, Inl e) \<Rightarrow> (w1, (warn @ out, []), Inl e)
         | (w1, out, Inr _) \<Rightarrow>
             (case get w1 (rstrip_char CHR ''/'' (wa_url a) @ ''/stats'') of
                (w2, Response h) \<Rightarrow> (w2, (warn @ out @ [CHR 0x0A # ''stats: '' @ hr_text h], []), Inr 0)
              | (w2, _) \<Rightarrow> (w2, (warn @ out, []), Inl TransportException)))"

section \<open>The verdict on a simulation\<close>

definition masked :: "string \<Rightarrow> string" where
  "masked v =
     (if v = [] then ''<empty>''
      else if length v < 12 then ''<set, '' @ nat_str (length v) @ '' chars>''
      else take 4 v @ ''...'' @ drop (length v - 2) v @ '' ('' @ nat_str (length v) @ '' chars)'')"

text \<open>\<open>dict.update\<close> on items: a known key keeps its place.\<close>

definition dict_update :: "(string \<times> json) list \<Rightarrow> (string \<times> json) list \<Rightarrow> (string \<times> json) list" where
  "dict_update d e = fold (\<lambda>(k, v). AList.update k v) e d"

definition is_dict :: "json \<Rightarrow> bool" where
  "is_dict v = (case v of JObj _ \<Rightarrow> True | _ \<Rightarrow> False)"

definition flat_truth :: "(string \<times> json) list \<Rightarrow> (string \<times> json) list" where
  "flat_truth tr = (case dict_get tr ''expected'' of
       JObj expected \<Rightarrow> expected
     | _ \<Rightarrow> fold (\<lambda>v flat. case v of JObj d \<Rightarrow> dict_update flat d | _ \<Rightarrow> flat) (map snd tr)
              (filter (\<lambda>kv. \<not> is_dict (snd kv)) tr))"

text \<open>\<open>ours == theirs\<close> for an integer of \<^verbatim>\<open>/stats\<close>: numbers compare by value.\<close>

definition int_equals :: "int \<Rightarrow> json \<Rightarrow> bool" where
  "int_equals i v = (case v of
       JInt k \<Rightarrow> i = k | JBool b \<Rightarrow> i = (if b then 1 else 0)
     | JFloat t \<Rightarrow> py_float t = Some (FNum (of_int i)) | _ \<Rightarrow> False)"

definition compare :: "(string \<times> int) list \<Rightarrow> (string \<times> json) list \<Rightarrow> bool" where
  "compare stats tr =
     (let flat = flat_truth tr;
          shared = filter (\<lambda>(key, ours). key \<in> fst ` set flat) stats
      in if shared = [] then True
         else list_all (\<lambda>(key, ours). int_equals ours (dict_get flat key)) shared)"

text \<open>The loop of \<open>main\<close> leaves early when this holds of the polled statistics.\<close>

definition no_work_left :: "stats \<Rightarrow> bool" where
  "no_work_left st \<longleftrightarrow> queued st = 0 \<and> sent st + failed st > 0"

definition exit_code :: "bool \<Rightarrow> int" where
  "exit_code matched = (if matched then 0 else 1)"

section \<open>What the comparison decides\<close>

definition stats_items :: "stats \<Rightarrow> (string \<times> int) list" where
  "stats_items st = [(''sent'', sent st), (''failed'', failed st), (''queued'', queued st),
     (''duplicates_blocked'', duplicates_blocked st)]"

definition stats_json :: "stats \<Rightarrow> json" where
  "stats_json st = JObj (map (\<lambda>(k, v). (k, JInt v)) (stats_items st))"

definition truth_items :: "truth \<Rightarrow> (string \<times> json) list" where
  "truth_items tr = [(''run_id'', JStr (tr_run_id tr)), (''finished_sending'', JBool (tr_finished_sending tr)),
     (''webhooks_delivered'', JInt (tr_webhooks_delivered tr)), (''webhooks_rejected'', JInt (tr_webhooks_rejected tr)),
     (''webhook_errors'', JInt (tr_webhook_errors tr)), (''matching_deliveries'', JInt (tr_matching_deliveries tr)),
     (''unique_matching_events'', JInt (tr_unique_matching_events tr)), (''expected'', stats_json (tr_expected tr)),
     (''expected_counting_redeliveries'', stats_json (tr_expected_counting_redeliveries tr))]"

lemma compare_stats_truth: "compare (stats_items st) (truth_items tr) \<longleftrightarrow> st = tr_expected tr"
proof -
  have flat: "flat_truth (truth_items tr) = map (\<lambda>(k, v). (k, JInt v)) (stats_items (tr_expected tr))"
    by (simp add: flat_truth_def truth_items_def dict_get_def dict_get_default_def stats_json_def)
  show ?thesis
    by (cases st; cases "tr_expected tr")
      (simp add: compare_def flat Let_def stats_items_def dict_get_def dict_get_default_def int_equals_def)
qed

text \<open>
  The comparison script decides equality.  On what \<^verbatim>\<open>GET /stats\<close> returns and what the mock's
  truth endpoint returns, \<open>compare\<close> answers True, and the script exits with 0, exactly when all
  four numbers are the expected ones.
\<close>

theorem compare_decides_equality:
  "exit_code (compare (stats_items st) (truth_items tr)) = 0
   \<longleftrightarrow> sent st = sent (tr_expected tr) \<and> failed st = failed (tr_expected tr)
     \<and> queued st = queued (tr_expected tr) \<and> duplicates_blocked st = duplicates_blocked (tr_expected tr)"
  unfolding compare_stats_truth by (auto simp: exit_code_def stats.equality)

text \<open>
  The official check passes end to end.  After any run of the service in which the
  simulation's posts arrived and everything was processed and delivered, the script that fetches
  the statistics and the truth finds no mismatch.
\<close>

theorem official_check_passes:
  assumes "good_settings (o_settings o')" and "\<not> count_duplicate_events_as_blocked (o_settings o')"
    and "trusting o'"
    and "sys_run o' ls0 (sys_start o' t0) = Some x0" "fresh (s_db x0)"
    and "get_counter DUPLICATES_BLOCKED (s_db x0) = 0"
    and "d_rules (s_db x0) = [r]" "r_is_active r = 1" "r_keyword_normalized r = lower keyword"
    and "run_simulation (o_hmac o') dumps (recording replies) (signing_secret (o_settings o')) keyword drs
           (new_run run_id) [] = (run, arrivals ls)"
    and "\<forall>p \<in> set (posted run_id keyword 0 drs new_tally). readable o' dumps p"
    and "sys_run o' ls x0 = Some x" "\<not> list_ex is_RULE ls"
    and "\<forall>e \<in> set (d_events (s_db x)). finished e" "\<forall>j \<in> set (d_jobs (s_db x)). j_status j = DELIVERED"
  shows "\<exists>tr. simulate_truth (Some run) = Ok 200 tr
     \<and> exit_code (compare (stats_items (compute_stats (s_db x))) (truth_items tr)) = 0"
  using stats_are_the_truth[OF assms] by (auto simp: compare_stats_truth exit_code_def)

section \<open>The signature of the test webhook\<close>

text \<open>
  C33: A test webhook passes the check of a service with the same environment, provided the secret
  has no white space around it: every request the script makes carries a header that
  \<open>verify_signature\<close> accepts for the settings the service loads.
\<close>

theorem test_webhook_is_accepted:
  assumes "hex_digest hmac" and "\<not> wa_unsigned a" and "script_secret env \<noteq> []"
    and "webhook_signing_secret s = getenv env ''WEBHOOK_SIGNING_SECRET'' []"
    and "pseudogram_api_key s = getenv env ''PSEUDOGRAM_API_KEY'' []"
    and "strip (webhook_signing_secret s) = webhook_signing_secret s"
    and "strip (pseudogram_api_key s) = pseudogram_api_key s"
  shows "case test_request hmac dumps env a dr of (body, header) \<Rightarrow>
     verify_signature hmac (signing_secret (strip_settings s)) body header = Inr True"
proof -
  have "signing_secret (strip_settings s) = script_secret env"
    using assms(4-7) by (simp add: signing_secret_strip_settings script_secret_def)
  with header_accepted[OF assms(1,3), of "dumps (test_payload a dr)"] show ?thesis
    using assms(2,3) by (simp add: test_request_def Let_def)
qed

definition test_env :: environment where
  "test_env = (\<lambda>name. if name = ''PSEUDOGRAM_API_KEY'' then Some ''key'' else None)"

definition test_args :: webhook_args where
  "test_args = \<lparr>wa_url = ''http://localhost:8000/'', wa_event_id = None, wa_event_type = ''comment.created'',
     wa_text = ''PRICE'', wa_user_id = ''u1'', wa_username = ''n'', wa_comment_id = ''c1'', wa_repeat = 1,
     wa_unsigned = False\<rparr>"

theorem test_webhook_is_accepted_witness:
  "case test_request hmac_example (\<lambda>_. ''{}'') test_env test_args \<lparr>dw_hex = ''ab'', dw_sent_at = ''t'', dw_created_at = ''t''\<rparr> of
     (body, header) \<Rightarrow>
       verify_signature hmac_example (signing_secret (strip_settings (default_settings\<lparr>pseudogram_api_key := ''key''\<rparr>))) body header = Inr True"
proof (rule test_webhook_is_accepted[OF hex_digest_example])
  show "strip (webhook_signing_secret (default_settings\<lparr>pseudogram_api_key := ''key''\<rparr>))
      = webhook_signing_secret (default_settings\<lparr>pseudogram_api_key := ''key''\<rparr>)"
    "strip (pseudogram_api_key (default_settings\<lparr>pseudogram_api_key := ''key''\<rparr>))
      = pseudogram_api_key (default_settings\<lparr>pseudogram_api_key := ''key''\<rparr>)"
    by (simp_all add: default_settings_simps) code_simp+
qed (simp_all add: test_args_def test_env_def script_secret_def getenv_def default_settings_simps)

text \<open>
  The service strips its secrets, the script does not: with a stray newline after the key the
  script signs with another secret than the service checks.
\<close>

lemma stray_newline_changes_the_secret:
  fixes key :: string
  defines "env \<equiv> \<lambda>name. if name = ''PSEUDOGRAM_API_KEY'' then Some (''k'' @ [CHR 0x0A]) else None"
  shows "script_secret env \<noteq> signing_secret (strip_settings (default_settings\<lparr>pseudogram_api_key := ''k'' @ [CHR 0x0A]\<rparr>))"
  by (simp add: env_def script_secret_def getenv_def signing_secret_strip_settings default_settings_simps
      strip_def lstrip_def is_space_def code_def)

end
