(* ===== verification/OfficialRun.thy ===== *)
theory OfficialRun
  imports Scripts
begin

text \<open>
  \<^verbatim>\<open>scripts/test_pseudogram.py\<close>: the run of the official simulation against a deployed instance,
  from the parsed arguments to the exit code.  The servers are functions on a world; the instance
  is this program, so its \<^verbatim>\<open>/stats\<close> is a \<open>StatsOut\<close> or an error.  Clock readings are
  arguments.  Printing is left out: no printed value can raise.
\<close>

section \<open>The script\<close>

text \<open>\<open>sys.exit(1)\<close> of \<open>fail\<close>, or an exception nobody catches.\<close>

datatype script_stop = S_EXIT int | S_RAISE py_exc

record 'w servers =
  sv_health :: "'w \<Rightarrow> string \<Rightarrow> 'w \<times> http_reply"
  sv_rules :: "'w \<Rightarrow> string \<Rightarrow> json \<Rightarrow> 'w \<times> http_reply"
  sv_stats :: "'w \<Rightarrow> string \<Rightarrow> 'w \<times> stats res"
  sv_start :: "'w \<Rightarrow> string \<Rightarrow> json \<Rightarrow> string \<Rightarrow> 'w \<times> http_reply"
  sv_truth :: "'w \<Rightarrow> string \<Rightarrow> string \<Rightarrow> 'w \<times> http_reply"

record run_args =
  ra_app_url :: string
  ra_keyword :: string
  ra_message :: string
  ra_count :: int
  ra_duration :: int
  ra_wait :: int
  ra_poll_interval :: int
  ra_skip_rule :: bool

definition check_environment ::
  "environment \<Rightarrow> 'w servers \<Rightarrow> string \<Rightarrow> 'w \<Rightarrow> 'w \<times> (script_stop + string \<times> string)" where
  "check_environment env sv app_url w =
     (let api_key = strip (getenv env ''PSEUDOGRAM_API_KEY'' []);
          base_url = rstrip_char CHR ''/'' (getenv env ''PSEUDOGRAM_BASE_URL'' default_base_url)
      in if api_key = [] then (w, Inl (S_EXIT 1))
         else (case sv_health sv w (app_url @ ''/health'') of
             (w1, HTTPError _ _) \<Rightarrow> (w1, Inl (S_EXIT 1))
           | (w1, OtherException) \<Rightarrow> (w1, Inl (S_RAISE TransportException))
           | (w1, Response h) \<Rightarrow>
               (w1, if hr_status_code h \<noteq> 200 then Inl (S_EXIT 1) else Inr (api_key, base_url))))"

definition script_create_rule ::
  "'w servers \<Rightarrow> string \<Rightarrow> string \<Rightarrow> string \<Rightarrow> 'w \<Rightarrow> 'w \<times> (script_stop + unit)" where
  "script_create_rule sv app_url keyword message w =
     (case sv_rules sv w (app_url @ ''/rules'')
             (JObj [(''keyword'', JStr keyword), (''dm_message'', JStr message)]) of
        (w1, Response h) \<Rightarrow>
          (w1, if hr_status_code h \<noteq> 201 then Inl (S_EXIT 1)
               else if hr_json h = None then Inl (S_RAISE ValueError) else Inr ())
      | (w1, _) \<Rightarrow> (w1, Inl (S_RAISE TransportException)))"

definition script_get_stats :: "'w servers \<Rightarrow> string \<Rightarrow> 'w \<Rightarrow> 'w \<times> (script_stop + stats)" where
  "script_get_stats sv app_url w = (case sv_stats sv w (app_url @ ''/stats'') of
       (w1, Inl e) \<Rightarrow> (w1, Inl (S_RAISE e)) | (w1, Inr st) \<Rightarrow> (w1, Inr st))"

definition start_simulation ::
  "'w servers \<Rightarrow> string \<Rightarrow> string \<Rightarrow> string \<Rightarrow> int \<Rightarrow> int \<Rightarrow> 'w \<Rightarrow> 'w \<times> (script_stop + json)" where
  "start_simulation sv base_url api_key webhook_url n duration w =
     (case sv_start sv w (base_url @ ''/v1/simulate/start'')
             (JObj [(''webhook_url'', JStr webhook_url), (''count'', JInt n), (''duration_seconds'', JInt duration)])
             api_key of
        (w1, Response h) \<Rightarrow>
          (w1, if 400 \<le> hr_status_code h then Inl (S_EXIT 1)
               else (case hr_json h of
                   None \<Rightarrow> Inl (S_RAISE ValueError)
                 | Some (JObj body) \<Rightarrow>
                     if \<not> truthy (dict_get body ''run_id'') then Inl (S_EXIT 1) else Inr (dict_get body ''run_id'')
                 | Some _ \<Rightarrow> Inl (S_RAISE AttributeError)))
      | (w1, _) \<Rightarrow> (w1, Inl (S_RAISE TransportException)))"

definition get_truth ::
  "'w servers \<Rightarrow> string \<Rightarrow> string \<Rightarrow> json \<Rightarrow> 'w \<Rightarrow> 'w \<times> (script_stop + json)" where
  "get_truth sv base_url api_key run_id w =
     (case sv_truth sv w (base_url @ ''/v1/simulate/'' @ py_str run_id @ ''/truth'') api_key of
        (w1, Response h) \<Rightarrow>
          (w1, if 400 \<le> hr_status_code h then Inl (S_EXIT 1)
               else (case hr_json h of None \<Rightarrow> Inl (S_RAISE ValueError) | Some v \<Rightarrow> Inr v))
      | (w1, _) \<Rightarrow> (w1, Inl (S_RAISE TransportException)))"

text \<open>\<open>truth.get\<close> in \<open>compare\<close> needs a dict.\<close>

definition compare_truth :: "stats \<Rightarrow> json \<Rightarrow> script_stop + bool" where
  "compare_truth st tr = (case tr of
       JObj d \<Rightarrow> Inr (compare (stats_items st) d) | _ \<Rightarrow> Inl (S_RAISE AttributeError))"

text \<open>One turn of the watch: the clock at the test of the loop and when the pause is computed.\<close>

record watch_turn =
  wt_test :: rat
  wt_sleep :: rat

definition watch_pause :: "int \<Rightarrow> rat \<Rightarrow> watch_turn \<Rightarrow> rat" where
  "watch_pause poll_interval deadline t = min (of_int poll_interval) (max 1 (deadline - wt_sleep t))"

text \<open>None: the script is still watching when the turns are used up.\<close>

fun watch ::
  "'w servers \<Rightarrow> string \<Rightarrow> int \<Rightarrow> rat \<Rightarrow> watch_turn list \<Rightarrow> 'w \<Rightarrow> 'w \<times> (script_stop + unit) option" where
  "watch sv app_url poll_interval deadline [] w = (w, None)"
| "watch sv app_url poll_interval deadline (t # ts) w =
     (if wt_test t < deadline then
        if watch_pause poll_interval deadline t < 0 then (w, Some (Inl (S_RAISE ValueError)))
        else (case script_get_stats sv app_url w of
            (w1, Inl e) \<Rightarrow> (w1, Some (Inl e))
          | (w1, Inr st) \<Rightarrow>
              if no_work_left st then (w1, Some (Inr ())) else watch sv app_url poll_interval deadline ts w1)
      else (w, Some (Inr ())))"

text \<open>The last part of \<open>main\<close>, after the watch.\<close>

definition verdict :: "'w servers \<Rightarrow> string \<Rightarrow> string \<Rightarrow> string \<Rightarrow> json \<Rightarrow> 'w \<Rightarrow> 'w \<times> (script_stop + int)" where
  "verdict sv app_url base_url api_key run_id w =
     (case script_get_stats sv app_url w of
        (w1, Inl e) \<Rightarrow> (w1, Inl e)
      | (w1, Inr st) \<Rightarrow>
          (case get_truth sv base_url api_key run_id w1 of
             (w2, Inl e) \<Rightarrow> (w2, Inl e)
           | (w2, Inr tr) \<Rightarrow> (w2, case compare_truth st tr of
                 Inl e \<Rightarrow> Inl e | Inr matched \<Rightarrow> Inr (exit_code matched))))"

definition official_main ::
  "environment \<Rightarrow> 'w servers \<Rightarrow> run_args \<Rightarrow> rat \<Rightarrow> watch_turn list \<Rightarrow> 'w \<Rightarrow> 'w \<times> (script_stop + int) option" where
  "official_main env sv a start_clock turns w =
     (let app_url = rstrip_char CHR ''/'' (ra_app_url a) in
      case check_environment env sv app_url w of
        (w1, Inl e) \<Rightarrow> (w1, Some (Inl e))
      | (w1, Inr (api_key, base_url)) \<Rightarrow>
      (case (if ra_skip_rule a then (w1, Inr ())
             else script_create_rule sv app_url (ra_keyword a) (ra_message a) w1) of
        (w2, Inl e) \<Rightarrow> (w2, Some (Inl e))
      | (w2, Inr _) \<Rightarrow>
      (case script_get_stats sv app_url w2 of
        (w3, Inl e) \<Rightarrow> (w3, Some (Inl e))
      | (w3, Inr _) \<Rightarrow>
      (case start_simulation sv base_url api_key (app_url @ ''/webhook'') (ra_count a) (ra_duration a) w3 of
        (w4, Inl e) \<Rightarrow> (w4, Some (Inl e))
      | (w4, Inr run_id) \<Rightarrow>
      (case watch sv app_url (ra_poll_interval a) (start_clock + of_int (ra_wait a)) turns w4 of
        (w5, None) \<Rightarrow> (w5, None)
      | (w5, Some (Inl e)) \<Rightarrow> (w5, Some (Inl e))
      | (w5, Some (Inr _)) \<Rightarrow>
          (case verdict sv app_url base_url api_key run_id w5 of (w6, r) \<Rightarrow> (w6, Some r)))))))"


section \<open>The watch ends\<close>

text \<open>A clock that does not run backwards and on which a pause takes its time.\<close>

fun steady_clock :: "int \<Rightarrow> rat \<Rightarrow> rat \<Rightarrow> watch_turn list \<Rightarrow> bool" where
  "steady_clock poll_interval deadline t [] = True"
| "steady_clock poll_interval deadline t (x # xs) \<longleftrightarrow> t \<le> wt_test x \<and> wt_test x \<le> wt_sleep x
     \<and> steady_clock poll_interval deadline (wt_sleep x + watch_pause poll_interval deadline x) xs"

lemma watch_pause_ge_1: "1 \<le> poll_interval \<Longrightarrow> 1 \<le> watch_pause poll_interval deadline t"
  by (simp add: watch_pause_def)

lemma watch_ends:
  assumes "1 \<le> poll_interval" "steady_clock poll_interval deadline t ts" "deadline - t \<le> of_nat n" "n < length ts"
  shows "snd (watch sv app_url poll_interval deadline ts w) \<noteq> None"
  using assms(2-4)
proof (induction ts arbitrary: t n w)
  case (Cons x xs)
  let ?t = "wt_sleep x + watch_pause poll_interval deadline x"
  have pause: "1 \<le> watch_pause poll_interval deadline x" by (rule watch_pause_ge_1[OF assms(1)])
  have x: "t \<le> wt_test x" "wt_test x \<le> wt_sleep x" "steady_clock poll_interval deadline ?t xs"
    using Cons.prems(1) by simp_all
  show ?case
  proof (cases "wt_test x < deadline")
    case True
    with x Cons.prems(2) have "n \<noteq> 0" by (auto intro: ccontr)
    then obtain m where m: "n = Suc m" by (cases n) auto
    with x(1,2) pause Cons.prems(2) have "deadline - ?t \<le> of_nat m" by simp
    with Cons.IH[OF x(3)] Cons.prems(3) m have "snd (watch sv app_url poll_interval deadline xs w') \<noteq> None" for w'
      by simp
    then show ?thesis using pause True by (simp split: prod.split sum.split)
  qed simp
qed simp

section \<open>What the exit code says\<close>

lemma verdict_compares:
  assumes "verdict sv app_url base_url api_key run_id w = (w', Inr n)"
  obtains w1 st d where "sv_stats sv w (app_url @ ''/stats'') = (w1, Inr st)"
    "get_truth sv base_url api_key run_id w1 = (w', Inr (JObj d))" "n = exit_code (compare (stats_items st) d)"
proof -
  obtain w1 r where st: "sv_stats sv w (app_url @ ''/stats'') = (w1, r)" by fastforce
  obtain w2 v where tr: "get_truth sv base_url api_key run_id w1 = (w2, v)" by fastforce
  show thesis
    using assms that st tr
    by (cases r; cases v) (auto simp: verdict_def script_get_stats_def compare_truth_def split: json.splits sum.splits)
qed

lemma official_main_stages:
  obtains (stopped) w' e where "official_main env sv a c ts w = (w', Some (Inl e))"
    | (watched) u b k i w4 where "u = rstrip_char CHR ''/'' (ra_app_url a)"
      "official_main env sv a c ts w =
        (case watch sv u (ra_poll_interval a) (c + of_int (ra_wait a)) ts w4 of
           (w5, None) \<Rightarrow> (w5, None)
         | (w5, Some (Inl e)) \<Rightarrow> (w5, Some (Inl e))
         | (w5, Some (Inr _)) \<Rightarrow> (case verdict sv u b k i w5 of (w6, r) \<Rightarrow> (w6, Some r)))"
proof -
  let ?u = "rstrip_char CHR ''/'' (ra_app_url a)"
  obtain w1 r1 where 1: "check_environment env sv ?u w = (w1, r1)" by fastforce
  obtain w2 r2 where 2: "(if ra_skip_rule a then (w1, Inr ())
      else script_create_rule sv ?u (ra_keyword a) (ra_message a) w1) = (w2, r2)" by fastforce
  obtain w3 r3 where 3: "script_get_stats sv ?u w2 = (w3, r3)" by fastforce
  note main = official_main_def[of env sv a c ts w, unfolded Let_def 1 prod.case]
  show thesis
  proof (cases r1)
    case (Inl e)
    then show ?thesis using stopped main by simp
  next
    case (Inr p)
    obtain k b where p: "p = (k, b)" by (cases p)
    obtain w4 r4 where 4: "start_simulation sv b k (?u @ ''/webhook'') (ra_count a) (ra_duration a) w3 = (w4, r4)"
      by fastforce
    note main' = main[unfolded Inr p sum.case prod.case 2 3 4]
    show ?thesis
    proof (cases "(\<exists>e. r2 = Inl e) \<or> (\<exists>e. r3 = Inl e) \<or> (\<exists>e. r4 = Inl e)")
      case True
      then show ?thesis using stopped main' 3 4 by (cases r2; cases r3; cases r4) auto
    next
      case False
      then obtain i x2 x3 where r: "r4 = Inr i" "r2 = Inr x2" "r3 = Inr x3" by (metis sum.exhaust)
      show ?thesis
        by (rule watched[OF refl main'[unfolded r(2) prod.case sum.case 3 r(3) 4 r(1)]])
    qed
  qed
qed



definition demo_stats :: stats where
  "demo_stats = \<lparr>sent = 3, failed = 1, queued = 0, duplicates_blocked = 2\<rparr>"

definition demo_truth :: truth where
  "demo_truth = \<lparr>tr_run_id = ''run'', tr_finished_sending = True, tr_webhooks_delivered = 6, tr_webhooks_rejected = 0,
     tr_webhook_errors = 0, tr_matching_deliveries = 6, tr_unique_matching_events = 6, tr_expected = demo_stats,
     tr_expected_counting_redeliveries = demo_stats\<rparr>"

definition demo_reply :: "int \<Rightarrow> (string \<times> json) list \<Rightarrow> http_reply" where
  "demo_reply status body = Response \<lparr>hr_status_code = status, hr_retry_after = None, hr_json = Some (JObj body), hr_text = []\<rparr>"

text \<open>An instance that has one message left to send when it is asked first.\<close>

definition demo_servers :: "nat servers" where
  "demo_servers = \<lparr>sv_health = (\<lambda>w _. (w, demo_reply 200 [(''status'', JStr ''ok'')])),
     sv_rules = (\<lambda>w _ _. (w, demo_reply 201 [])),
     sv_stats = (\<lambda>w _. (w + 1, Inr (if w < 2 then demo_stats\<lparr>sent := 2, queued := 1\<rparr> else demo_stats))),
     sv_start = (\<lambda>w _ _ _. (w, demo_reply 200 [(''run_id'', JStr ''run'')])),
     sv_truth = (\<lambda>w _ _. (w, demo_reply 200 (truth_items demo_truth)))\<rparr>"

definition demo_args :: run_args where
  "demo_args = \<lparr>ra_app_url = ''http://app/'', ra_keyword = ''PRICE'', ra_message = ''m'', ra_count = 6, ra_duration = 1,
     ra_wait = 3, ra_poll_interval = 2, ra_skip_rule = False\<rparr>"

definition demo_turns :: "watch_turn list" where
  "demo_turns = [\<lparr>wt_test = 0, wt_sleep = 0\<rparr>, \<lparr>wt_test = 2, wt_sleep = 2\<rparr>, \<lparr>wt_test = 4, wt_sleep = 4\<rparr>,
     \<lparr>wt_test = 6, wt_sleep = 6\<rparr>]"


end
