(* ===== verification/Shapes.thy ===== *)
theory Shapes
  imports System
begin

text \<open>
  Which columns of a job go with which status.  The locales \<open>event_rows\<close> and \<open>row_invariant\<close> say what
  a predicate on rows must survive to hold of every job in every reachable state; \<open>job_shape\<close> is the
  predicate the code relies on: a delivery can be polled only with a \<open>dm_id\<close>, a retry is
  found only with a time.
\<close>

section \<open>Predicates on rows\<close>

definition all_jobs :: "(job \<Rightarrow> bool) \<Rightarrow> db \<Rightarrow> bool" where
  "all_jobs P d \<longleftrightarrow> (\<forall>j \<in> set (d_jobs d). P j)"

lemma all_jobs_same: "d_jobs d' = d_jobs d \<Longrightarrow> all_jobs P d' = all_jobs P d"
  by (simp add: all_jobs_def)

lemma all_jobs_get: "all_jobs P d \<Longrightarrow> get_job i d = Some j \<Longrightarrow> P j"
  using get_job_SomeD by (auto simp: all_jobs_def)

lemma all_jobs_replace:
  "all_jobs P d \<Longrightarrow> P k \<Longrightarrow> all_jobs P (d\<lparr>d_jobs := replace_by j_id k (d_jobs d)\<rparr>)"
  by (auto simp: all_jobs_def dest!: set_replace_by)

lemma all_jobs_update:
  assumes "all_jobs P d" "\<And>j. C j \<Longrightarrow> P j \<Longrightarrow> P (f j)"
  shows "all_jobs P (d\<lparr>d_jobs := update_where C f (d_jobs d)\<rparr>)"
  using assms by (auto simp: all_jobs_def set_update_where)

text \<open>What the event worker does to rows: it adds new ones and cancels.\<close>

locale event_rows =
  fixes P :: "job \<Rightarrow> bool"
  assumes new_row: "P ((new_job r u c now)\<lparr>j_id := i\<rparr>)"
    and cancel_row: "P j \<Longrightarrow> j_status j \<in> {QUEUED, RETRY_WAIT} \<Longrightarrow> P (j\<lparr>j_status := CANCELLED, j_updated_at := now\<rparr>)"
begin

lemma create_jobs_rows: "all_jobs P d \<Longrightarrow> all_jobs P (create_jobs rs u c now d)"
proof (induction rs arbitrary: d)
  case (Cons r rs)
  have "all_jobs P (fst (create_job r u c now d))"
  proof (cases "insert_job (new_job r u c now) d")
    case (Inl e)
    with Cons.prems show ?thesis by (simp add: create_job_def all_jobs_def)
  next
    case (Inr x)
    then have "d_jobs (fst (create_job r u c now d))
        = d_jobs d @ [(new_job r u c now)\<lparr>j_id := next_pk (map j_id (d_jobs d))\<rparr>]"
      by (auto simp: create_job_def insert_job_def Let_def split: if_splits)
    with Cons.prems new_row show ?thesis by (auto simp: all_jobs_def)
  qed
  with Cons.IH show ?case by simp
qed simp

lemma cancel_rows: "all_jobs P d \<Longrightarrow> all_jobs P (fst (cancel_jobs_for_comment c now d))"
  by (auto simp: cancel_jobs_for_comment_def cancellable_def cancellable_job_statuses_def
      intro!: all_jobs_update cancel_row)

lemma process_event_rows: "all_jobs P d \<Longrightarrow> all_jobs P (process_event e now d)"
proof -
  assume a: "all_jobs P d"
  have fin: "all_jobs P (finish_event e st now d') = all_jobs P d'" for st d'
    by (rule all_jobs_same) (simp add: finish_event_def)
  have created: "all_jobs P (fst (process_comment_created e now d))"
    using a create_jobs_rows by (auto simp: process_comment_created_def)
  have same: "all_jobs P d1" if "insert_deleted c now d = Inr d1" for c d1
    using that a by (auto simp: insert_deleted_def all_jobs_def split: if_splits)
  have deleted: "all_jobs P (fst (process_comment_deleted e now d))"
    using a cancel_rows same by (auto simp: process_comment_deleted_def Let_def split: sum.splits)
  show ?thesis
    unfolding process_event_def using created deleted a by (auto simp: split_beta fin)
qed

lemma process_loop_rows: "all_jobs P d \<Longrightarrow> all_jobs P (fst (process_loop faults es now h d))"
proof (induction es arbitrary: d h)
  case (Cons e es)
  have r: "all_jobs P (release_event (e_id e) d)"
    using Cons.prems all_jobs_same[of "release_event (e_id e) d" d] by (simp add: release_event_def)
  show ?case
    using Cons.prems Cons.IH[OF process_event_rows[OF Cons.prems]] Cons.IH[OF r]
    by (auto split: event_fault.splits)
qed simp

lemma batch_rows: "all_jobs P d \<Longrightarrow> all_jobs P (fst (process_pending_events faults limit now d))"
proof -
  assume "all_jobs P d"
  then have "all_jobs P (fst (claim_pending_events limit d))"
    using all_jobs_same[of "fst (claim_pending_events limit d)" d] by (simp add: claim_pending_events_def)
  from process_loop_rows[OF this] show ?thesis by (simp add: process_pending_events_def split_beta)
qed

end

locale row_invariant = event_rows P for P :: "job \<Rightarrow> bool" +
  fixes s :: settings
  assumes claim_row: "P j \<Longrightarrow> j_status j \<in> {QUEUED, RETRY_WAIT} \<Longrightarrow> P (j\<lparr>j_status := SENDING, j_updated_at := now\<rparr>)"
    and release_row: "P j \<Longrightarrow> j_status j = SENDING \<Longrightarrow> P (j\<lparr>j_status := QUEUED, j_updated_at := now\<rparr>)"
    and send_row: "P j \<Longrightarrow> j_status j \<in> in_hand \<Longrightarrow> send_transition s v now res j = Inr j' \<Longrightarrow> P j'"
    and poll_row: "P j \<Longrightarrow> j_status j = ACCEPTED \<Longrightarrow> delivery_transition s v now status j = Inr j' \<Longrightarrow> P j'"
begin

lemma claim_rows:
  assumes "db_ok d" "all_jobs P d" shows "all_jobs P (fst (dm_claim now d))"
proof (cases "snd (claim_next_job now d)")
  case None
  then have "fst (dm_claim now d) = d"
    using dm_claim_none[OF assms(1), of now] by (cases "dm_claim now d") (simp add: dm_claim_frame)
  with assms(2) show ?thesis by simp
next
  case (Some k)
  then have k: "claim_next_job now d = (fst (dm_claim now d), Some k)"
    by (cases "claim_next_job now d") (simp add: dm_claim_frame)
  from claim_next_job_step[OF assms(1), of now] k obtain j where
    j: "j \<in> set (d_jobs d)" "runnable now j" "k = j\<lparr>j_status := SENDING, j_updated_at := now\<rparr>"
      "fst (dm_claim now d) = d\<lparr>d_jobs := replace_by j_id k (d_jobs d)\<rparr>" by auto
  have "P k" using j assms(2) by (auto simp: all_jobs_def runnable_def intro!: claim_row)
  with j(4) assms(2) show ?thesis by (simp add: all_jobs_replace)
qed

lemma apply_rows:
  assumes "all_jobs P d" "\<And>j. get_job i d = Some j \<Longrightarrow> j_status j \<in> in_hand"
  shows "all_jobs P (fst (dm_apply s u now i r d))"
proof (cases rule: dm_apply_cases[of i d s u now r])
  case (moved j j')
  have "P j'" using send_row[OF all_jobs_get[OF assms(1) moved(1)] assms(2)[OF moved(1)] moved(2)] .
  with moved(5) assms(1) show ?thesis by (simp add: all_jobs_replace)
qed (simp_all add: assms(1))

lemma release_rows:
  assumes "db_ok d" "all_jobs P d" shows "all_jobs P (fst (release_claim now i d))"
proof (cases rule: release_claim_cases[OF assms(1), of now i])
  case (2 j j')
  have "P j'" using release_row[OF all_jobs_get[OF assms(2) 2(1)] 2(2)] 2(3) by simp
  with 2(5) assms(2) show ?thesis by (simp add: all_jobs_replace)
qed (simp add: assms(2))

lemma requeue_rows: "requeue_stale_sending q now d = Inr (d', n) \<Longrightarrow> all_jobs P d \<Longrightarrow> all_jobs P d'"
  by (auto simp: requeue_stale_sending_def stale_def split: sum.splits
      intro!: all_jobs_update release_row)

lemma maintain_rows: "all_jobs P d \<Longrightarrow> all_jobs P (fst (manager_requeue_stale cfg now d))"
  by (cases "requeue_stale_sending (sending_stale_seconds cfg) now d")
    (auto simp: manager_requeue_stale_def session_scope_def intro: requeue_rows)

lemma poll_rows:
  assumes "db_ok d" "all_jobs P d" shows "all_jobs P (fst (reconcile_apply s u now i status d))"
proof (cases rule: reconcile_apply_cases[OF assms(1), of i s u now status])
  case (4 j j')
  have "P j'" using poll_row[OF all_jobs_get[OF assms(2) 4(1)] 4(2,3)] .
  with 4(5) assms(2) show ?thesis by (simp add: all_jobs_replace)
qed (simp_all add: assms(2))

lemma start_rows:
  assumes "all_jobs P d" shows "all_jobs P (snd (fst (lifespan_start cfg ok c1 c2 now d)))"
proof -
  have seed: "all_jobs P (seed_counters d')" if "all_jobs P d'" for d'
    using that all_jobs_same[of "seed_counters d'" d'] by simp
  have rec: "all_jobs P (fst (recover_state now d'))" if "all_jobs P d'" for d'
  proof -
    let ?d = "fst (requeue_stuck_events (seed_counters d'))"
    have stuck: "all_jobs P ?d"
      using seed[OF that] all_jobs_same[of ?d "seed_counters d'"] by (simp add: requeue_stuck_events_def)
    show ?thesis
      using that stuck requeue_rows[of 0 now ?d]
      by (auto simp: recover_state_def session_scope_def Let_def split: sum.splits)
  qed
  have man: "all_jobs P (snd (fst (manager_start cfg ok c1 c2 now d')))" if "all_jobs P d'" for d'
  proof (cases "recover_state now d'")
    case (Pair d1 r)
    have "all_jobs P d1" using rec[OF that] Pair by (metis fst_conv)
    moreover have "all_jobs P (snd (warm_start ok c1 c2 (l, d1))) = all_jobs P d1" for l
      by (rule all_jobs_same) (simp add: warm_start_def Let_def prune_def)
    ultimately show ?thesis
      by (cases r) (simp_all add: manager_start_def Pair)
  qed
  show ?thesis
    using man[OF seed[OF assms]] seed[OF assms]
    by (cases "manager_start cfg ok c1 c2 now (seed_counters d)")
      (auto simp: lifespan_start_def session_scope_def Let_def)
qed

lemma sys_do_rows:
  assumes "sys_do o' l x = Some y" "o_settings o' = s" "db_ok (s_db x)" "flight_ok x" "all_jobs P (s_db x)"
  shows "all_jobs P (s_db y)"
proof -
  note rows = assms(5)
  have hand: "all_jobs P (fst (dm_apply s u now (cl_id c) r (s_db x)))"
    if "in_flight (s_phase x) = Some c" for u now c r
    using assms(4) that by (intro apply_rows[OF rows]) (auto simp: flight_ok_def holds_def)
  show ?thesis
  proof (cases l)
    case (RULE i now body)
    have "d_jobs (fst (create_rule i now body (s_db x))) = d_jobs (s_db x)"
      by (cases rule: create_rule_cases[of i now body "s_db x"]) simp_all
    then have "d_jobs (s_db y) = d_jobs (s_db x)" using assms(1) RULE by auto
    then show ?thesis using rows all_jobs_same by blast
  next
    case (DELIVERY storage now body hdr)
    have "d_jobs (s_db y) = d_jobs (s_db x)"
      using assms(1) DELIVERY
      by (cases rule: receive_webhook_cases[of "o_hmac o'" "o_loads o'" "o_fromisoformat o'" "o_settings o'"
            storage now body hdr "s_db x"]) (auto dest: ingest_event_jobs)
    then show ?thesis using rows all_jobs_same by blast
  next
    case (BATCH faults limit now)
    then show ?thesis using assms(1) batch_rows[OF rows] by (auto split: if_splits)
  next
    case (CLAIM now)
    obtain d r where c: "dm_claim now (s_db x) = (d, r)" by fastforce
    then show ?thesis
      using assms(1) CLAIM claim_rows[OF assms(3) rows, of now] by (cases r) (auto split: if_splits)
  next
    case (TURN b t)
    obtain c where ph: "s_phase x = P_CLAIMED c" using assms(1) TURN by (auto split: phase.splits)
    obtain l' d r where a: "acquire_once b t (s_limiter x, s_db x) = ((l', d), r)" by (metis prod.collapse)
    have "d_jobs d = d_jobs (s_db x)"
      using a by (cases rule: acquire_once_cases[of t "s_limiter x" b "s_db x"])
        (auto simp: persist_def record_attempt_def)
    then have "d_jobs (s_db y) = d_jobs (s_db x)"
      using assms(1) TURN ph a by (auto simp: Let_def split: attempt.splits)
    then show ?thesis using rows all_jobs_same by blast
  next
    case (RESPONSE reply u now)
    obtain c where ph: "s_phase x = P_SENT c" using assms(1) RESPONSE by (auto split: phase.splits)
    show ?thesis
    proof (cases "answer s c reply")
      case (Inl e)
      then show ?thesis using assms(1,2) RESPONSE ph rows by auto
    next
      case (Inr r)
      obtain d z where d: "dm_apply s u now (cl_id c) r (s_db x) = (d, z)" by fastforce
      have "all_jobs P d" using hand[of c u now r] ph d by simp
      then show ?thesis using assms(1,2) RESPONSE ph Inr d by (cases z) auto
    qed
  next
    case (RELEASE now)
    then show ?thesis using assms(1) release_rows[OF assms(3) rows] by (auto split: phase.splits)
  next
    case (LATE_WRITE u now)
    then show ?thesis using assms(1,2) hand by (auto split: phase.splits option.splits)
  next
    case (POLL i status u now)
    then show ?thesis using assms(1,2) poll_rows[OF assms(3) rows] by (auto split: if_splits)
  next
    case (MAINTAIN now)
    then show ?thesis using assms(1) maintain_rows[OF rows] by (auto split: if_splits)
  next
    case (START b c1 c2 now)
    obtain m d z where st: "lifespan_start s b c1 c2 now (s_db x) = ((m, d), z)" by (metis prod.collapse)
    then have "s_db y = d" using assms(1,2) START by (auto split: if_splits option.splits sum.splits)
    then show ?thesis using start_rows[OF rows, of s b c1 c2 now] st by simp
  qed (use assms(1) rows in \<open>auto split: phase.splits\<close>)
qed

lemma reachable_rows:
  assumes "good_settings s" "o_settings o' = s" "sys_run o' ls (sys_start o' t) = Some x"
  shows "all_jobs P (s_db x)"
proof -
  have "invariant_system (\<lambda>x. x = sys_start o' t) (sys_step o') (\<lambda>x. sys_inv o' x \<and> all_jobs P (s_db x))"
  proof
    show "sys_inv o' z \<and> all_jobs P (s_db z)" if "z = sys_start o' t" for z
      using that sys_start_inv by (simp add: sys_start_def all_jobs_def empty_db_def)
    show "sys_inv o' z \<and> all_jobs P (s_db z)"
      if "sys_inv o' y \<and> all_jobs P (s_db y)" "sys_step o' y l z" for l y z
      using that sys_step_inv[of o' y l z] sys_do_rows[of o' l y z] assms(1,2)
      by (auto simp: sys_step_def sys_inv_def)
  qed
  from invariant_system.reachable_inv[OF this sys_run_reachable[OF assms(3)]] show ?thesis
    by (simp add: reachable.reach_start)
qed

end

section \<open>The shape of a job\<close>

text \<open>An error column is \<open>NULL\<close> or a text of 1 to 500 characters.\<close>

definition error_text_ok :: "string option \<Rightarrow> bool" where
  "error_text_ok e = (case e of None \<Rightarrow> True | Some t \<Rightarrow> t \<noteq> [] \<and> length t \<le> 500)"

definition job_shape :: "job \<Rightarrow> bool" where
  "job_shape j \<longleftrightarrow> error_text_ok (j_last_error j)
     \<and> (j_dm_id j \<noteq> None \<longleftrightarrow> j_status j \<in> {ACCEPTED, DELIVERED})
     \<and> (case j_status j of
          ACCEPTED \<Rightarrow> j_next_retry_at j = None \<and> j_last_error j = None
        | DELIVERED \<Rightarrow> j_next_retry_at j = None \<and> j_last_error j = None \<and> j_last_status_check_at j \<noteq> None
        | RETRY_WAIT \<Rightarrow> j_next_retry_at j \<noteq> None \<and> j_last_error j \<noteq> None
        | FAILED \<Rightarrow> j_next_retry_at j = None \<and> j_last_error j \<noteq> None
        | _ \<Rightarrow> True)"

lemma error_column_filled:
  assumes "error_column err = Inr le" "truthy err"
  obtains t where "le = Some t" "t \<noteq> []" "length t \<le> 500"
proof -
  obtain t where t: "err = JStr t" "le = Some (take 500 t)" "t \<noteq> []"
    using assms by (cases err)
      (auto simp: error_column_def py_slice_def max_error_length_def bind_text_def py_or_def split: if_splits)
  then show thesis by (intro that[of "take 500 t"]) simp_all
qed

lemma schedule_retry_shape:
  assumes "schedule_retry delay err now j = Inr j'" "truthy err" "j_dm_id j = None"
  shows "job_shape j'"
proof -
  obtain t le where j': "error_column err = Inr le"
    "j' = j\<lparr>j_status := RETRY_WAIT, j_next_retry_at := Some t, j_last_error := le, j_updated_at := now\<rparr>"
    using schedule_retryD[OF assms(1)] by blast
  from error_column_filled[OF j'(1) assms(2)] obtain w where "le = Some w" "w \<noteq> []" "length w \<le> 500" .
  with j'(2) assms(3) show ?thesis by (simp add: job_shape_def error_text_ok_def)
qed

lemma give_up_shape:
  assumes "give_up err now j = Inr j'" "truthy err" "j_dm_id j = None"
  shows "job_shape j'"
proof -
  obtain le where j': "error_column err = Inr le"
    "j' = j\<lparr>j_status := FAILED, j_next_retry_at := None, j_last_error := le, j_updated_at := now\<rparr>"
    using give_upD[OF assms(1)] by blast
  from error_column_filled[OF j'(1) assms(2)] obtain w where "le = Some w" "w \<noteq> []" "length w \<le> 500" .
  with j'(2) assms(3) show ?thesis by (simp add: job_shape_def error_text_ok_def)
qed

lemma handle_transient_failure_shape:
  "handle_transient_failure s u err now j = Inr j' \<Longrightarrow> truthy err \<Longrightarrow> j_dm_id j = None \<Longrightarrow> job_shape j'"
  by (auto simp: handle_transient_failure_def Let_def split: if_splits sum.splits
      intro: schedule_retry_shape give_up_shape)

lemma truthy_or: "t \<noteq> [] \<Longrightarrow> truthy (py_or a (JStr t))"
  by (simp add: py_or_def)

lemma send_transition_shape:
  assumes "send_transition s u now r j = Inr j'" "j_dm_id j = None"
  shows "job_shape j'"
proof -
  consider (no_id) "sr_outcome r = S_ACCEPTED" "\<not> truthy (sr_dm_id r)"
    | (accepted) "sr_outcome r = S_ACCEPTED" "truthy (sr_dm_id r)" | (other) "sr_outcome r \<noteq> S_ACCEPTED"
    by blast
  then show ?thesis
  proof cases
    case no_id
    then show ?thesis
      using assms by (auto simp: send_transition_def intro: handle_transient_failure_shape)
  next
    case accepted
    obtain dm where dm: "bind_text (sr_dm_id r) = Inr dm" "j_dm_id j' = dm" "j_status j' = ACCEPTED"
      "j_next_retry_at j' = None" "j_last_error j' = None"
      using assms(1) accepted by (auto simp: send_transition_def split: sum.splits)
    have "dm \<noteq> None"
      using dm(1) accepted(2) by (cases "sr_dm_id r") (auto simp: bind_text_def split: if_splits)
    with dm show ?thesis by (simp add: job_shape_def error_text_ok_def)
  next
    case other
    have "send_outcome_value (sr_outcome r) \<noteq> []" by (cases "sr_outcome r") simp_all
    with other show ?thesis
      using assms unfolding send_transition_def Let_def
      by (auto split: if_splits simp: truthy_or
          elim!: schedule_retry_shape give_up_shape handle_transient_failure_shape)
  qed
qed

lemma delivery_transition_shape:
  assumes "delivery_transition s u now status j = Inr j'" "job_shape j" "j_status j = ACCEPTED"
  shows "job_shape j'"
  using assms unfolding delivery_transition_def Let_def
  by (auto split: if_splits sum.splits intro: schedule_retry_shape give_up_shape)
    (auto simp: job_shape_def error_text_ok_def)

interpretation shapes: row_invariant job_shape s for s
proof unfold_locales
  show "job_shape ((new_job r u c now)\<lparr>j_id := i\<rparr>)" for r u c now i
    by (simp add: job_shape_def error_text_ok_def new_job_def)
  show "job_shape (j\<lparr>j_status := SENDING, j_updated_at := now\<rparr>)"
    "job_shape (j\<lparr>j_status := CANCELLED, j_updated_at := now\<rparr>)"
    if "job_shape j" "j_status j \<in> {QUEUED, RETRY_WAIT}" for j now
    using that by (auto simp: job_shape_def)
  show "job_shape (j\<lparr>j_status := QUEUED, j_updated_at := now\<rparr>)"
    if "job_shape j" "j_status j = SENDING" for j now
    using that by (auto simp: job_shape_def)
  show "job_shape j'" if "job_shape j" "j_status j \<in> in_hand" "send_transition s v now res j = Inr j'"
    for j j' v now res
    using that by (intro send_transition_shape[OF that(3)]) (auto simp: job_shape_def in_hand_def)
  show "job_shape j'" if "job_shape j" "j_status j = ACCEPTED" "delivery_transition s v now status j = Inr j'"
    for j j' v now status
    using delivery_transition_shape that by blast
qed

text \<open>
  C7: Every job of every reachable state is well formed.  A job carries a \<open>dm_id\<close> exactly when it
  is \<open>accepted\<close> or \<open>delivered\<close>; a job that waits for a retry has a time and a reason; a
  failed job has a reason and no retry time; a delivered one was checked and shows no error; no
  error text is empty or longer than 500 characters.  Interruptions, late answers, crashes and
  cancellations do not break it, although no constraint of the database asks for it.
\<close>

theorem jobs_are_well_formed:
  assumes "good_settings (o_settings o')" and "sys_run o' ls (sys_start o' t) = Some x"
  shows "list_all job_shape (d_jobs (s_db x))"
  using shapes.reachable_rows[OF assms(1) refl assms(2)] by (simp add: all_jobs_def list_all_iff)


theorem jobs_are_well_formed_witness:
  "list_all job_shape (d_jobs (s_db demo_middle)) \<and> map j_status (d_jobs (s_db demo_middle)) = [RETRY_WAIT]"
  using jobs_are_well_formed[OF demo_good demo_runs(1)] demo_facts(1) by simp


end
