(* ===== verification/WorkerRuns.thy ===== *)
theory WorkerRuns
  imports System Draining
begin

text \<open>
  The two models of the send worker agree: one iteration of \<open>dm_run_once\<close>, with every answer,
  error and cancellation, is a run of the service of \<^verbatim>\<open>System\<close>.  So what holds of all its runs
  holds of what the worker does.
\<close>

section \<open>Reaching a state of the worker\<close>

definition reaches :: "surroundings \<Rightarrow> sys \<Rightarrow> db \<Rightarrow> limiter \<Rightarrow> phase \<Rightarrow> bool" where
  "reaches o' x d l ph \<longleftrightarrow>
     (\<exists>ls y. sys_run o' ls x = Some y \<and> s_db y = d \<and> s_limiter y = l \<and> s_phase y = ph)"

lemma reaches_start: "reaches o' x (s_db x) (s_limiter x) (s_phase x)"
  unfolding reaches_def by (rule exI[of _ "[]"]) simp

lemma reaches_step:
  assumes "reaches o' x d l ph"
    and "\<And>y. s_db y = d \<Longrightarrow> s_limiter y = l \<Longrightarrow> s_phase y = ph \<Longrightarrow>
      \<exists>z. sys_do o' lab y = Some z \<and> s_db z = d' \<and> s_limiter z = l' \<and> s_phase z = ph'"
  shows "reaches o' x d' l' ph'"
proof -
  obtain ls y where y: "sys_run o' ls x = Some y" "s_db y = d" "s_limiter y = l" "s_phase y = ph"
    using assms(1) by (auto simp: reaches_def)
  obtain z where z: "sys_do o' lab y = Some z" "s_db z = d'" "s_limiter z = l'" "s_phase z = ph'"
    using assms(2)[OF y(2-4)] by blast
  have "sys_run o' (ls @ [lab]) x = Some z" by (simp add: sys_run_append y(1) z(1))
  with z(2-4) show ?thesis unfolding reaches_def by blast
qed

text \<open>The steps of the worker.\<close>

lemma reaches_claim:
  "reaches o' x d l P_IDLE \<Longrightarrow> configured (o_settings o') \<Longrightarrow> dm_claim now d = (d', c) \<Longrightarrow>
   reaches o' x d' l (case c of None \<Rightarrow> P_IDLE | Some c \<Rightarrow> P_CLAIMED c)"
  by (erule reaches_step[where lab = "CLAIM now"]) (auto split: option.splits)

lemma reaches_turn:
  "reaches o' x d l (P_CLAIMED c) \<Longrightarrow> acquire_once ok t (l, d) = ((l', d'), r) \<Longrightarrow>
   reaches o' x d' l' (case r of GRANT _ \<Rightarrow> P_GRANTED c | SLEEP _ \<Rightarrow> P_CLAIMED c | RAISE _ \<Rightarrow> P_RELEASING c None)"
  by (erule reaches_step[where lab = "TURN ok t"]) (auto simp: Let_def split: attempt.splits)

lemma reaches_send: "reaches o' x d l (P_GRANTED c) \<Longrightarrow> reaches o' x d l (P_SENT c)"
  by (erule reaches_step[where lab = SEND]) auto

lemma reaches_failed_answer:
  "reaches o' x d l (P_SENT c) \<Longrightarrow> answer (o_settings o') c reply = Inl e \<Longrightarrow> reaches o' x d l (P_RELEASING c None)"
  by (erule reaches_step[where lab = "RESPONSE reply 0 0"]) auto

lemma reaches_answer:
  "reaches o' x d l (P_SENT c) \<Longrightarrow> answer (o_settings o') c reply = Inr r \<Longrightarrow>
   dm_apply (o_settings o') u now (cl_id c) r d = (d', z) \<Longrightarrow>
   reaches o' x d' l (case z of Inl _ \<Rightarrow> P_RELEASING c None | Inr _ \<Rightarrow> P_IDLE)"
  by (erule reaches_step[where lab = "RESPONSE reply u now"]) (auto split: sum.splits)

lemma reaches_interrupt:
  "reaches o' x d l ph \<Longrightarrow> ph \<in> {P_CLAIMED c, P_GRANTED c, P_SENT c} \<Longrightarrow> reaches o' x d l (P_RELEASING c None)"
  by (erule reaches_step[where lab = "INTERRUPT None"]) auto

lemma reaches_interrupt_write:
  "reaches o' x d l (P_SENT c) \<Longrightarrow> answer (o_settings o') c reply = Inr r \<Longrightarrow>
   reaches o' x d l (P_RELEASING c (Some r))"
  by (erule reaches_step[where lab = "INTERRUPT (Some reply)"]) auto

lemma reaches_release:
  "reaches o' x d l (P_RELEASING c p) \<Longrightarrow>
   reaches o' x (fst (release_claim now (cl_id c) d)) l (case p of None \<Rightarrow> P_IDLE | Some r \<Rightarrow> P_LATE c r)"
  "reaches o' x d l (P_WRITTEN c) \<Longrightarrow> reaches o' x (fst (release_claim now (cl_id c) d)) l P_IDLE"
  by (erule reaches_step[where lab = "RELEASE now"], simp)+

lemma reaches_late_write:
  "reaches o' x d l (P_RELEASING c (Some r)) \<Longrightarrow>
   reaches o' x (fst (dm_apply (o_settings o') u now (cl_id c) r d)) l (P_WRITTEN c)"
  "reaches o' x d l (P_LATE c r) \<Longrightarrow> reaches o' x (fst (dm_apply (o_settings o') u now (cl_id c) r d)) l P_IDLE"
  by (erule reaches_step[where lab = "LATE_WRITE u now"], simp)+

lemma reaches_acquire:
  assumes "reaches o' x d l (P_CLAIMED c)" "acquire cs (l, d) = ((l', d'), g)"
  shows "reaches o' x d' l' (case g of Inl _ \<Rightarrow> P_RELEASING c None
      | Inr None \<Rightarrow> P_CLAIMED c | Inr (Some _) \<Rightarrow> P_GRANTED c)"
  using assms
proof (induction cs arbitrary: l d)
  case (Cons k cs)
  obtain ok t where k: "k = (ok, t)" by (cases k)
  obtain l1 d1 r where a: "acquire_once ok t (l, d) = ((l1, d1), r)" by (metis prod.collapse)
  note turn = reaches_turn[OF Cons.prems(1) a]
  show ?case
  proof (cases r)
    case (SLEEP w)
    then have "acquire cs (l1, d1) = ((l', d'), g)" using Cons.prems(2) k a by simp
    with Cons.IH turn SLEEP show ?thesis by simp
  qed (use Cons.prems(2) k a turn in auto)
qed auto

section \<open>One iteration\<close>

lemma answer_of_post:
  assumes "configured s"
  shows "fst (send_dm s post w (request_of c)) = fst (post w (request_of c))
    \<and> snd (send_dm s post w (request_of c)) = answer s c (snd (post w (request_of c)))"
  using assms by (cases "post w (request_of c)") (auto simp: send_dm_def answer_def split: http_reply.splits)

text \<open>After a response was written there is nothing to release.\<close>

lemma release_after_write:
  assumes "db_ok d" "dm_apply s u now i r d = (d', Inr ())" shows "fst (release_claim t i d') = d'"
proof -
  have "j_status j \<noteq> SENDING" if "get_job i d' = Some j" for j
    using dm_apply_touches(2)[OF assms(1), of i s u now r j] assms(2) that by simp
  moreover have "db_ok d'" using dm_apply_db_ok[OF assms(1), of s u now i r] assms(2) by simp
  ultimately show ?thesis
    using release_claim_cases[of d' t i "fst (release_claim t i d') = d'"] by force
qed

text \<open>The end of a run whose response is being written.\<close>

lemma written_run_reaches:
  fixes t now :: time and u :: rat
  assumes sending: "reaches o' x d2 l2 (P_SENT c)" and ans: "answer (o_settings o') c reply = Inr r"
    and ok: "db_ok d2"
  defines "rel \<equiv> \<lambda>d. fst (release_claim t (cl_id c) d)"
    and "sto \<equiv> \<lambda>d. dm_apply (o_settings o') u now (cl_id c) r d"
  shows "reaches o' x (fst (sto (rel d2))) l2 P_IDLE" "reaches o' x (rel (fst (sto d2))) l2 P_IDLE"
    and "snd (sto d2) = Inr () \<Longrightarrow> reaches o' x (fst (sto d2)) l2 P_IDLE \<and> rel (fst (sto d2)) = fst (sto d2)"
proof -
  note writing = reaches_interrupt_write[OF sending ans]
  show "reaches o' x (fst (sto (rel d2))) l2 P_IDLE"
    using reaches_late_write(2) reaches_release(1)[OF writing, of t] by (simp add: rel_def sto_def)
  show "reaches o' x (rel (fst (sto d2))) l2 P_IDLE"
    unfolding rel_def sto_def by (rule reaches_release(2)[OF reaches_late_write(1)[OF writing]])
  assume fin: "snd (sto d2) = Inr ()"
  obtain d3 z where st: "sto d2 = (d3, z)" by fastforce
  show "reaches o' x (fst (sto d2)) l2 P_IDLE \<and> rel (fst (sto d2)) = fst (sto d2)"
    using reaches_answer[OF sending ans, of u now d3 z] release_after_write[OF ok, of "o_settings o'" u now "cl_id c" r d3 t]
      st fin by (simp add: sto_def rel_def)
qed

text \<open>A run after its grant.\<close>

lemma granted_run_reaches:
  assumes granted: "reaches o' x d2 l2 (P_GRANTED c)" and conf: "configured (o_settings o')" and ok: "db_ok d2"
    and claim: "dm_claim (wi_claim_time inp) d = (d1, Some c)"
    and acq: "acquire (wi_readings inp) (l, d1) = ((l2, d2), Inr (Some t))" and na: "wi_cancel inp \<noteq> IN_ACQUIRE"
    and run: "dm_run_once (o_settings o') post inp (w, l, d) = ((w', l', d'), res)"
  shows "reaches o' x d' l' P_IDLE \<and> res \<noteq> WAITING"
proof -
  let ?s = "o_settings o'" and ?rel = "\<lambda>d. fst (release_claim (wi_release_time inp) (cl_id c) d)"
  let ?sto = "\<lambda>r d. dm_apply ?s (wi_draw inp) (wi_apply_time inp) (cl_id c) r d"
  note sending = reaches_send[OF granted]
  have rel: "reaches o' x (?rel d2) l2 P_IDLE"
    using reaches_release(1)[OF reaches_interrupt[OF granted], of c "wi_release_time inp"] by simp
  obtain w2 a where send: "send_dm ?s post w (request_of c) = (w2, a)" by fastforce
  have ans: "answer ?s c (snd (post w (request_of c))) = a" using answer_of_post[OF conf, of post w c] send by simp
  note body = run[unfolded dm_run_once_def split_conv claim Let_def acq option.case prod.case sum.case send]
  show ?thesis
  proof (cases a)
    case (Inl e)
    then show ?thesis using body conf na rel by (cases "wi_cancel inp") auto
  next
    case (Inr r)
    note written = written_run_reaches[OF sending ans[unfolded Inr] ok, where t = "wi_release_time inp"
        and u = "wi_draw inp" and now = "wi_apply_time inp"]
    obtain d3 z where st: "?sto r d2 = (d3, z)" by fastforce
    have d3: "reaches o' x (?rel d3) l2 P_IDLE" "z = Inr () \<Longrightarrow> reaches o' x d3 l2 P_IDLE"
      using written(2,3) st by simp_all
    show ?thesis
    proof (cases "wi_cancel inp")
      case (IN_APPLY first)
      then show ?thesis using body conf Inr written(1,2) by (cases first) auto
    qed (use body conf Inr na rel d3 st in \<open>cases z; auto split: if_splits\<close>)+
  qed
qed

lemma worker_iteration_reaches:
  assumes "dm_run_once (o_settings o') post inp (w, l, d) = ((w', l', d'), res)"
    and start: "reaches o' x d l P_IDLE" and "db_ok d"
  shows "\<exists>ph. reaches o' x d' l' ph \<and> (if res = WAITING then \<exists>c. ph = P_CLAIMED c else ph = P_IDLE)"
proof -
  let ?s = "o_settings o'" and ?now = "wi_claim_time inp"
  note goal = exI[where P = "\<lambda>ph. reaches o' x d' l' ph \<and> (if res = WAITING then \<exists>c. ph = P_CLAIMED c else ph = P_IDLE)"]
  show ?thesis
  proof (cases "\<not> configured ?s \<or> snd (dm_claim ?now d) = None")
    case True
    with dm_run_once_idle[OF assms(1,3)] start show ?thesis by (intro goal[of P_IDLE]) simp_all
  next
    case False
    then obtain d1 c where c: "dm_claim ?now d = (d1, Some c)" and conf: "configured ?s"
      by (metis option.exhaust prod.collapse)
    have ok1: "db_ok d1" using dm_claim_someE[OF assms(3) c] by (metis touches_def)
    obtain l2 d2 g where acq: "acquire (wi_readings inp) (l, d1) = ((l2, d2), g)" by (metis prod.collapse)
    have ok2: "db_ok d2" using acquire_frame(3)[OF ok1, of "wi_readings inp" "l"] acq by simp
    have claimed: "reaches o' x d1 (l) (P_CLAIMED c)" using reaches_claim[OF start conf c] by simp
    note acquired = reaches_acquire[OF claimed acq]
    note body = assms(1)[unfolded dm_run_once_def split_conv c Let_def acq option.case prod.case]
    have released: "reaches o' x (fst (release_claim (wi_release_time inp) (cl_id c) d2)) l2 P_IDLE"
      if "wi_cancel inp = IN_ACQUIRE \<or> (\<exists>e. g = Inl e)"
    proof -
      have "reaches o' x d2 l2 (P_RELEASING c None)"
        using acquired reaches_interrupt[of o' x d2 l2 _ c] by (cases g) (auto split: option.splits)
      from reaches_release(1)[OF this, of "wi_release_time inp"] show ?thesis by simp
    qed
    consider (out) "wi_cancel inp = IN_ACQUIRE \<or> (\<exists>e. g = Inl e)" | (waiting) "g = Inr None" "wi_cancel inp \<noteq> IN_ACQUIRE"
      | (granted) t where "g = Inr (Some t)" "wi_cancel inp \<noteq> IN_ACQUIRE"
      by (cases g) auto
    then show ?thesis
    proof cases
      case out
      from released[OF this] out body conf show ?thesis by (intro goal[of P_IDLE]) (auto split: if_splits)
    next
      case waiting
      with acquired body conf show ?thesis by (intro goal[of "P_CLAIMED c"]) auto
    next
      case (granted t)
      have "reaches o' x d2 l2 (P_GRANTED c)" using acquired granted by simp
      from granted_run_reaches[OF this conf ok2 c acq[unfolded granted] granted(2) assms(1)] show ?thesis
        by (intro goal[of P_IDLE]) simp_all
    qed
  qed
qed


text \<open>
  The service model contains the worker.  Whatever one iteration of \<open>DMWorker.run_once\<close> does
  (finds nothing, waits, is granted, is answered or not, raises, is cancelled at any await, its
  late write before or after the release), the running service has a sequence of steps that leads
  from the same database and limiter to the same database and limiter, with the worker idle again.
\<close>

theorem worker_iterations_are_service_runs:
  assumes "dm_run_once (o_settings o') post inp (w, s_limiter x, s_db x) = ((w', l', d'), res)"
    and "s_phase x = P_IDLE" and "db_ok (s_db x)"
  shows "\<exists>ls y. sys_run o' ls x = Some y \<and> s_db y = d' \<and> s_limiter y = l'
     \<and> (if res = WAITING then \<exists>c. s_phase y = P_CLAIMED c else s_phase y = P_IDLE)"
  using worker_iteration_reaches[OF assms(1) _ assms(3), of x] reaches_start[of o' x] assms(2)
  unfolding reaches_def by metis

text \<open>A service that has claimed nothing yet, over a database with two jobs.\<close>

definition demo_ready :: sys where
  "demo_ready = (sys_start demo 0)\<lparr>s_db := db2, s_phase := P_IDLE, s_limiter := new_limiter 10 60 0 True\<rparr>"

theorem worker_iterations_are_service_runs_witness:
  "\<exists>ls y. sys_run demo ls demo_ready = Some y \<and> s_phase y = P_IDLE
     \<and> s_db y = snd (snd (fst (dm_run_once (o_settings demo) accepting_server plain_input
         ((), new_limiter 10 60 0 True, db2))))
     \<and> map j_status (d_jobs (s_db y)) = [ACCEPTED, QUEUED]"
proof -
  let ?run = "dm_run_once (o_settings demo) accepting_server plain_input ((), s_limiter demo_ready, s_db demo_ready)"
  obtain w l d r where run: "?run = ((w, l, d), r)" by (metis prod.collapse)
  have "map j_status (d_jobs (snd (snd (fst ?run)))) = [ACCEPTED, QUEUED]" "snd ?run \<noteq> WAITING"
    unfolding demo_ready_def by code_simp+
  then have fin: "map j_status (d_jobs d) = [ACCEPTED, QUEUED]" "r \<noteq> WAITING" by (simp_all add: run)
  have ready: "s_phase demo_ready = P_IDLE" "db_ok (s_db demo_ready)" by (simp_all add: demo_ready_def db2_ok)
  have "snd (snd (fst (dm_run_once (o_settings demo) accepting_server plain_input
      ((), new_limiter 10 60 0 True, db2)))) = d"
    using run by (simp add: demo_ready_def)
  with worker_iterations_are_service_runs[OF run ready] fin show ?thesis by metis
qed

end
