(* ===== verification/Progress.thy ===== *)
theory Progress
  imports Shapes WorkerRuns Accounting
begin

text \<open>
  No state of the service is a dead end: from every reachable state some continuation (a restart,
  one batch, and for each open job a claim, a grant, an accepting answer and a delivered status)
  finishes every event and every job.
\<close>

section \<open>Jobs that are ready\<close>

text \<open>Nothing in flight, and every retry due by the time \<open>T\<close>.\<close>

definition due_by :: "time \<Rightarrow> job \<Rightarrow> bool" where
  "due_by T j \<longleftrightarrow> job_shape j \<and> j_status j \<noteq> SENDING
     \<and> (case j_next_retry_at j of None \<Rightarrow> True | Some r \<Rightarrow> r \<le> T)"

definition final_job :: "job \<Rightarrow> bool" where
  "final_job j \<longleftrightarrow> j_status j \<in> {DELIVERED, FAILED, CANCELLED}"

definition job_distance :: "job \<Rightarrow> nat" where
  "job_distance j = (if waiting j then 2 else if j_status j = ACCEPTED then 1 else 0)"

definition distance :: "db \<Rightarrow> nat" where
  "distance d = sum_list (map job_distance (d_jobs d))"

interpretation due_rows: event_rows "due_by T" for T
  by unfold_locales (auto simp: due_by_def job_shape_def error_text_ok_def new_job_def split: option.splits)

lemma distance_replace:
  assumes "db_ok d" "get_job i d = Some j" "j_id j' = i" "d_jobs d' = replace_by j_id j' (d_jobs d)"
  shows "distance d' + job_distance j = distance d + job_distance j'"
  using assms get_job_SomeD[OF assms(2)] sum_list_replace_by[of j_id "d_jobs d" j j' job_distance]
  by (simp add: distance_def db_ok_def)

lemma distance_zero: "all_jobs (due_by T) d \<Longrightarrow> distance d = 0 \<longleftrightarrow> list_all final_job (d_jobs d)"
proof -
  assume due: "all_jobs (due_by T) d"
  have "job_distance j = 0 \<longleftrightarrow> final_job j" if "due_by T j" for j
    using that by (cases "j_status j") (auto simp: job_distance_def waiting_def final_job_def due_by_def)
  with due show ?thesis by (auto simp: distance_def all_jobs_def list_all_iff)
qed

section \<open>The steps towards the end\<close>

text \<open>A delivered status for an accepted job.\<close>

lemma reaches_poll:
  assumes "reaches o' x d l P_IDLE" "db_ok d" "all_jobs (due_by T) d"
    and "j \<in> set (d_jobs d)" "j_status j = ACCEPTED"
  shows "\<exists>d'. reaches o' x d' l P_IDLE \<and> db_ok d' \<and> all_jobs (due_by T) d' \<and> distance d' < distance d
     \<and> d_events d' = d_events d"
proof -
  let ?j = "j\<lparr>j_last_status_check_at := Some T, j_status := DELIVERED, j_last_error := None,
      j_next_retry_at := None, j_updated_at := T\<rparr>"
  let ?d = "d\<lparr>d_jobs := replace_by j_id ?j (d_jobs d)\<rparr>"
  have get: "get_job (j_id j) d = Some j" using assms(2,4) by (simp add: get_job_iff)
  have trans: "delivery_transition (o_settings o') 0 T (JStr ''delivered'') j = Inr ?j"
    by (simp add: delivery_transition_def Let_def)
  have rec: "reconcile_apply (o_settings o') 0 T (j_id j) (JStr ''delivered'') d = (?d, Inr ())"
    using trans assms(5) get
    by (cases rule: reconcile_apply_cases[OF assms(2), of "j_id j" "o_settings o'" 0 T "JStr ''delivered''"]) auto
  have "reaches o' x ?d l P_IDLE"
    using assms(1) by (rule reaches_step[where lab = "POLL (j_id j) (JStr ''delivered'') 0 T"]) (auto simp: rec)
  moreover have "db_ok ?d"
    using reconcile_apply_db_ok[OF assms(2), of "o_settings o'" 0 T "j_id j" "JStr ''delivered''"] rec by simp
  moreover have "due_by T ?j"
    using assms(3-5) by (auto simp: all_jobs_def due_by_def job_shape_def error_text_ok_def)
  moreover have "distance ?d + job_distance j = distance d + job_distance ?j"
    by (rule distance_replace[OF assms(2) get]) simp_all
  ultimately show ?thesis
    using all_jobs_replace[OF assms(3), of ?j] assms(5)
    by (intro exI[of _ ?d]) (auto simp: job_distance_def waiting_def)
qed

text \<open>The window is empty for a reading that is late enough.\<close>

lemma late_reading_grants:
  assumes "1 \<le> rl_max_calls l"
  obtains t l' d' where "acquire_once True t (l, d) = ((l', d'), GRANT t)" "rl_max_calls l' = rl_max_calls l"
    "d_jobs d' = d_jobs d" "d_events d' = d_events d" "db_ok d \<Longrightarrow> db_ok d'"
proof -
  let ?M = "Max (insert 0 (set (rl_timestamps l)))"
  let ?t = "?M + rl_window_seconds l"
  have "\<forall>t \<in> set (rl_timestamps l). t \<le> ?M" by simp
  then have "rl_timestamps (trim ?t l) = []"
    by (simp add: trim_def Let_def dropWhile_eq_Nil_conv)
  moreover have "rl_max_calls (trim ?t l) = rl_max_calls l" by (simp add: trim_def)
  ultimately show thesis
    using assms
    by (cases rule: acquire_once_cases[of ?t l True d])
      (auto intro!: that simp: persist_def record_attempt_def db_ok_def uq_dm_jobs_rule_user_def uq_events_event_id_def)
qed

lemma accepting_answer:
  assumes "configured s"
  obtains r where "answer s c demo_accepted = Inr r" "sr_outcome r = S_ACCEPTED" "sr_dm_id r = JStr ''dm_1''"
  using assms by (auto simp: answer_def send_dm_def demo_accepted_def classify_send_def Let_def safe_json_def
      dict_get_def dict_get_default_def blank_result_def intro!: that)

lemma waiting_is_claimed:
  assumes "db_ok d" "all_jobs (due_by T) d" "list_ex waiting (d_jobs d)"
  obtains d1 c j k where "dm_claim T d = (d1, Some c)" "get_job (j_id j) d = Some j" "waiting j" "due_by T j"
    "cl_id c = j_id j" "k = j\<lparr>j_status := SENDING, j_updated_at := T\<rparr>" "get_job (j_id j) d1 = Some k"
    "d1 = d\<lparr>d_jobs := replace_by j_id k (d_jobs d)\<rparr>" "db_ok d1"
proof -
  obtain j0 where j0: "j0 \<in> set (d_jobs d)" "waiting j0" using assms(3) by (auto simp: list_ex_iff)
  have "runnable T j0"
    using assms(2) j0 by (force simp: all_jobs_def due_by_def job_shape_def waiting_def runnable_def split: option.splits)
  with claim_next_job_step[OF assms(1), of T] j0(1) obtain d1 k where k: "claim_next_job T d = (d1, Some k)"
    by (cases "claim_next_job T d"; cases "snd (claim_next_job T d)") auto
  from claim_next_job_step[OF assms(1), of T] k obtain j where
    j: "j \<in> set (d_jobs d)" "runnable T j" "k = j\<lparr>j_status := SENDING, j_updated_at := T\<rparr>"
      "d1 = d\<lparr>d_jobs := replace_by j_id k (d_jobs d)\<rparr>" by auto
  have get: "get_job (j_id j) d = Some j" using j(1) assms(1) by (simp add: get_job_iff)
  have d1: "get_job (j_id j) d1 = Some k" "db_ok d1"
    using j claim_next_job_db_ok[OF assms(1), of T] k
    by (auto simp: get_job_def intro!: find_by_replace_by_same)
  show thesis
    using k j get d1 assms(2)
    by (intro that[of d1 "claimed_of k" j k])
      (auto simp: dm_claim_def claimed_of_def all_jobs_def runnable_def waiting_def)
qed

text \<open>A claim, a grant, a request and an accepting answer for a waiting job.\<close>

lemma reaches_accept:
  assumes "reaches o' x d l P_IDLE" "configured (o_settings o')" "1 \<le> rl_max_calls l" "db_ok d"
    and "all_jobs (due_by T) d" "list_ex waiting (d_jobs d)"
  shows "\<exists>d' l'. reaches o' x d' l' P_IDLE \<and> rl_max_calls l' = rl_max_calls l \<and> db_ok d'
     \<and> all_jobs (due_by T) d' \<and> distance d' < distance d \<and> d_events d' = d_events d"
proof -
  let ?s = "o_settings o'"
  obtain d1 c j k where c: "dm_claim T d = (d1, Some c)" "get_job (j_id j) d = Some j" "waiting j" "due_by T j"
    "cl_id c = j_id j" "k = j\<lparr>j_status := SENDING, j_updated_at := T\<rparr>" "get_job (j_id j) d1 = Some k"
    "d1 = d\<lparr>d_jobs := replace_by j_id k (d_jobs d)\<rparr>" "db_ok d1"
    by (rule waiting_is_claimed[OF assms(4-6)])
  obtain t l2 d2 where g: "acquire_once True t (l, d1) = ((l2, d2), GRANT t)" "rl_max_calls l2 = rl_max_calls l"
    "d_jobs d2 = d_jobs d1" "d_events d2 = d_events d1" "db_ok d2"
    using late_reading_grants[OF assms(3), of d1] c(9) by metis
  obtain r where r: "answer ?s c demo_accepted = Inr r" "sr_outcome r = S_ACCEPTED" "sr_dm_id r = JStr ''dm_1''"
    by (rule accepting_answer[OF assms(2)])
  have k: "get_job (cl_id c) d2 = Some k" using c(5,7) g(3) by (simp add: get_job_def)
  let ?k = "k\<lparr>j_attempts := j_attempts k + 1, j_transient_failures := 0, j_status := ACCEPTED,
      j_dm_id := Some ''dm_1'', j_last_error := None, j_next_retry_at := None, j_updated_at := T\<rparr>"
  have trans: "send_transition ?s 0 T r k = Inr ?k"
    by (simp add: send_transition_def Let_def r bind_text_def)
  have "flush_job ?k d2 = Inr (d2\<lparr>d_jobs := replace_by j_id ?k (d_jobs d2)\<rparr>)"
    using get_job_SomeD[OF k] c(6) by (intro flush_live_job[OF g(5), of k]) (auto simp: holds_slot_def slot_def)
  then have store: "dm_apply ?s 0 T (cl_id c) r d2 = (d2\<lparr>d_jobs := replace_by j_id ?k (d_jobs d2)\<rparr>, Inr ())"
    using trans by (simp add: dm_apply_def session_scope_def k apply_send_result_def)
  let ?d = "d2\<lparr>d_jobs := replace_by j_id ?k (d_jobs d2)\<rparr>"
  have "reaches o' x d1 l (P_CLAIMED c)" using reaches_claim[OF assms(1,2) c(1)] by simp
  from reaches_send[of o' x d2 l2 c] reaches_turn[OF this g(1)] have "reaches o' x d2 l2 (P_SENT c)" by simp
  from reaches_answer[OF this r(1) store] have reach: "reaches o' x ?d l2 P_IDLE" by simp
  have jobs: "d_jobs ?d = replace_by j_id ?k (d_jobs d)" using g(3) c(6,8) by (simp add: replace_by_twice)
  have due: "due_by T ?k" by (simp add: due_by_def job_shape_def error_text_ok_def)
  have "all_jobs (due_by T) ?d" unfolding all_jobs_def jobs
    using assms(5) due by (auto simp: all_jobs_def dest!: set_replace_by)
  moreover have "db_ok ?d" using dm_apply_db_ok[OF g(5), of ?s 0 T "cl_id c" r] store by simp
  moreover have "distance ?d + job_distance j = distance d + job_distance ?k"
    by (rule distance_replace[OF assms(4) c(2) _ jobs]) (simp add: c(6))
  then have "distance ?d < distance d" using c(3) by (simp add: job_distance_def waiting_def)
  moreover have "d_events ?d = d_events d" using g(4) c(8) by simp
  ultimately show ?thesis using reach g(2) by blast
qed

text \<open>Every ready state leads to one in which all jobs are final.\<close>

lemma reaches_final:
  assumes "reaches o' x d l P_IDLE" "configured (o_settings o')" "1 \<le> rl_max_calls l" "db_ok d"
    and "all_jobs (due_by T) d"
  shows "\<exists>d' l'. reaches o' x d' l' P_IDLE \<and> list_all final_job (d_jobs d') \<and> d_events d' = d_events d"
  using assms(1,3-5)
proof (induction "distance d" arbitrary: d l rule: less_induct)
  case less
  show ?case
  proof (cases "list_ex waiting (d_jobs d)")
    case True
    from reaches_accept[OF less.prems(1) assms(2) less.prems(2-4) True] obtain d' l' where
      "reaches o' x d' l' P_IDLE" "rl_max_calls l' = rl_max_calls l" "db_ok d'" "all_jobs (due_by T) d'"
      "distance d' < distance d" "d_events d' = d_events d" by blast
    with less.hyps[of d' l'] less.prems(2) show ?thesis by auto
  next
    case nw: False
    show ?thesis
    proof (cases "list_ex (\<lambda>j. j_status j = ACCEPTED) (d_jobs d)")
      case True
      then obtain j where "j \<in> set (d_jobs d)" "j_status j = ACCEPTED" by (auto simp: list_ex_iff)
      from reaches_poll[OF less.prems(1,3,4) this] obtain d' where
        "reaches o' x d' l P_IDLE" "db_ok d'" "all_jobs (due_by T) d'" "distance d' < distance d" "d_events d' = d_events d"
        by blast
      with less.hyps[of d' l] less.prems(2) show ?thesis by auto
    next
      case False
      with nw have "distance d = 0" by (auto simp: distance_def job_distance_def list_ex_iff)
      with distance_zero[OF less.prems(4)] less.prems(1) show ?thesis by blast
    qed
  qed
qed

section \<open>Restart and batch\<close>

lemma start_in_order:
  assumes "in_time_range T" "db_ok d" "enable_workers s"
    and "\<forall>j \<in> set (d_jobs d). job_shape j \<and> j_updated_at j < T
      \<and> (case j_next_retry_at j of None \<Rightarrow> True | Some r \<Rightarrow> r \<le> T)"
  shows "\<exists>l d'. lifespan_start s True 0 0 T d = ((Some l, d'), Inr ())
     \<and> rl_max_calls l = send_rate_limit_max_calls s \<and> db_ok d' \<and> all_jobs (due_by T) d'
     \<and> (\<forall>e \<in> set (d_events d'). e_status e \<noteq> PROCESSING)"
proof -
  let ?f = "\<lambda>j. j\<lparr>j_status := QUEUED, j_updated_at := T\<rparr>"
  obtain d2 where rec: "recover_state T (seed_counters d) = (d2, Inr ())"
    and jobs: "d_jobs d2 = update_where (stale T) ?f (d_jobs d)"
    and ev: "d_events d2 = d_events (fst (requeue_stuck_events (seed_counters (seed_counters d))))"
    using recover_state_eq[OF assms(1), of "seed_counters d"] by (auto simp: seed_counters_def)
  obtain l d3 where warm: "warm_start True 0 0 (manager_limiter s, d2) = (l, d3)" by fastforce
  have start: "lifespan_start s True 0 0 T d = ((Some l, d3), Inr ())"
    using assms(3) by (simp add: lifespan_start_def manager_start_def session_scope_def Let_def rec warm)
  have l: "rl_max_calls l = send_rate_limit_max_calls s"
    using warm by (auto simp: warm_start_def manager_limiter_def new_limiter_def Let_def seed_def trim_def)
  have same: "d_jobs d3 = d_jobs d2" "d_events d3 = d_events d2"
    using warm by (auto simp: warm_start_def manager_limiter_def new_limiter_def Let_def prune_def)
  have "db_ok d3"
    using evolves_db_ok[OF lifespan_start_evolves[OF assms(2), of s s True 0 0 T]] start by simp
  moreover have "due_by T k" if "k \<in> set (d_jobs d2)" for k
  proof -
    obtain j where j: "j \<in> set (d_jobs d)" "k = (if stale T j then ?f j else j)"
      using \<open>k \<in> set (d_jobs d2)\<close> by (auto simp: jobs update_where_def)
    have shape: "job_shape j" "j_updated_at j < T" "case j_next_retry_at j of None \<Rightarrow> True | Some r \<Rightarrow> r \<le> T"
      using assms(4) j(1) by auto
    have "job_shape (?f j)" if "j_status j = SENDING" using shape(1) that by (simp add: job_shape_def)
    with j(2) shape show ?thesis by (auto simp: due_by_def stale_def)
  qed
  then have "all_jobs (due_by T) d3" by (simp add: all_jobs_def same)
  moreover have "\<forall>e \<in> set (d_events d3). e_status e \<noteq> PROCESSING"
    by (auto simp: same ev requeue_stuck_events_def set_update_where)
  ultimately show ?thesis using start l by blast
qed

lemma whole_batch_finishes:
  assumes "db_ok d" "\<forall>e \<in> set (d_events d). e_status e \<noteq> PROCESSING" "length (d_events d) \<le> limit"
  shows "list_all finished (d_events (fst (process_pending_events (\<lambda>_. NO_FAULT) limit T d)))"
  unfolding list_all_iff
proof
  let ?d = "fst (process_pending_events (\<lambda>_. NO_FAULT) limit T d)"
  fix e assume e: "e \<in> set (d_events ?d)"
  have nf: "\<forall>i \<in> set (pending_ids limit d). NO_FAULT \<noteq> RECOVERY_FAULT" by simp
  note b = event_batch_step[OF assms(1) nf, of T, THEN conjunct2]
  have get: "get_event (e_id e) ?d = Some e"
    using e process_pending_events_db_ok[OF assms(1)] by (simp add: get_event_iff)
  show "finished e"
  proof (cases "e_id e \<in> set (pending_ids limit d)")
    case True
    then show ?thesis using b[THEN conjunct1] get by (force simp: finished_def)
  next
    case False
    then have old: "get_event (e_id e) d = Some e" using b[THEN conjunct2] get by simp
    have "count_where pending_event (d_events d) \<le> limit"
      using assms(3) by (simp add: count_where_def) (meson le_trans length_filter_le)
    then have "set (pending_ids limit d) = e_id ` {e \<in> set (d_events d). pending_event e}"
      by (auto simp: pending_ids_def count_where_def)
    with False old have "\<not> pending_event e" using get_event_SomeD[OF old] by auto
    then show ?thesis
      using assms(2) get_event_SomeD[OF old] by (cases "e_status e") (auto simp: finished_def pending_event_def)
  qed
qed

text \<open>
  C5: No reachable state is a dead end.  Whatever has happened to the service (lost answers, late
  writes, crashes at any moment, errors in batches), with a working configuration and a clock
  beyond the times it has stored there is a continuation after which every stored event is
  processed and every job is delivered, failed or cancelled.
\<close>

theorem service_can_always_finish:
  assumes "good_settings (o_settings o')" and "configured (o_settings o')" "enable_workers (o_settings o')"
    and "1 \<le> send_rate_limit_max_calls (o_settings o')"
    and "sys_run o' ls (sys_start o' t) = Some x"
    and "in_time_range T" "\<forall>j \<in> set (d_jobs (s_db x)). j_updated_at j < T
      \<and> (case j_next_retry_at j of None \<Rightarrow> True | Some r \<Rightarrow> r \<le> T)"
  shows "\<exists>ls' y. sys_run o' ls' x = Some y \<and> list_all finished (d_events (s_db y))
     \<and> list_all final_job (d_jobs (s_db y))"
proof -
  have ok: "db_ok (s_db x)" using sys_run_inv[OF assms(1,5)] by (simp add: sys_inv_def)
  have shape: "all_jobs job_shape (s_db x)" by (rule shapes.reachable_rows[OF assms(1) refl assms(5)])
  obtain l d where st: "lifespan_start (o_settings o') True 0 0 T (s_db x) = ((Some l, d), Inr ())"
    "rl_max_calls l = send_rate_limit_max_calls (o_settings o')" "db_ok d" "all_jobs (due_by T) d"
    "\<forall>e \<in> set (d_events d). e_status e \<noteq> PROCESSING"
    using start_in_order[OF assms(6) ok assms(3)] assms(7) shape by (auto simp: all_jobs_def)
  let ?d = "fst (process_pending_events (\<lambda>_. NO_FAULT) (length (d_events d)) T d)"
  have "reaches o' x (s_db x) (s_limiter x) P_DOWN"
    by (rule reaches_step[OF reaches_start, where lab = CRASH]) auto
  then have "reaches o' x d l P_IDLE"
    by (rule reaches_step[where lab = "START True 0 0 T"]) (auto simp: st(1))
  then have batch: "reaches o' x ?d l P_IDLE"
    by (rule reaches_step[where lab = "BATCH (\<lambda>_. NO_FAULT) (length (d_events d)) T"]) auto
  have calls: "1 \<le> rl_max_calls l" using st(2) assms(4) by simp
  obtain d' l' where fin: "reaches o' x d' l' P_IDLE" "list_all final_job (d_jobs d')" "d_events d' = d_events ?d"
    using reaches_final[OF batch assms(2) calls process_pending_events_db_ok[OF st(3)] due_rows.batch_rows[OF st(4)]]
    by blast
  then show ?thesis
    using whole_batch_finishes[OF st(3,5) order_refl, of T] unfolding reaches_def by metis
qed

theorem service_can_always_finish_witness:
  "\<exists>ls y. sys_run demo ls demo_middle = Some y \<and> list_all final_job (d_jobs (s_db y))"
proof -
  have s: "configured (o_settings demo)" "enable_workers (o_settings demo)"
    "1 \<le> send_rate_limit_max_calls (o_settings demo)"
    by (simp_all add: demo_def keyed_settings_def configured_def default_settings_simps)
  have T: "in_time_range 10000000" by (simp add: in_time_range_def max_time_def)
  have "list_all (\<lambda>j. j_updated_at j < 10000000
      \<and> (case j_next_retry_at j of None \<Rightarrow> True | Some r \<Rightarrow> r \<le> 10000000)) (d_jobs (s_db demo_middle))"
    unfolding demo_middle_def by code_simp
  then have "\<forall>j \<in> set (d_jobs (s_db demo_middle)). j_updated_at j < 10000000
      \<and> (case j_next_retry_at j of None \<Rightarrow> True | Some r \<Rightarrow> r \<le> 10000000)" by (simp add: list_all_iff)
  from service_can_always_finish[OF demo_good s demo_runs(1) T this] show ?thesis by blast
qed

end
