(* ===== verification/LoopRuns.thy ===== *)
theory LoopRuns
  imports WorkerRuns
begin

text \<open>
  The endless loops of the four tasks are runs of the service of \<^verbatim>\<open>System\<close>, for any number of
  turns: its invariants hold of the states the loops leave.  The locale \<open>service_task\<close> is the
  contract of an iteration; each loop interprets it.
\<close>

section \<open>Tasks\<close>

text \<open>\<open>ready\<close> holds between two iterations, \<open>halfway\<close> of a state in which one still waits.\<close>

locale service_task =
  fixes once :: "'i \<Rightarrow> 's \<Rightarrow> 's \<times> 'r iteration_end" and allowed :: "'i \<Rightarrow> bool"
    and ready :: "'s \<Rightarrow> bool" and halfway :: "'s \<Rightarrow> bool"
  assumes iteration: "ready st \<Longrightarrow> allowed i \<Longrightarrow>
    (if snd (once i st) = UNFINISHED then halfway (fst (once i st)) else ready (fst (once i st)))"
begin

lemma loop_is_run:
  assumes "ready st" "list_all (\<lambda>t. allowed (t_input t)) ts"
    and "run_forever once dflt pause ts stop st = (st', e, ps)"
  shows "ready st' \<or> (e = L_RUNNING \<and> halfway st')"
  using assms
proof (induction ts arbitrary: st stop ps)
  case (Cons t ts)
  obtain st1 a where o: "once (t_input t) st = (st1, a)" by fastforce
  have "allowed (t_input t)" using Cons.prems(2) by simp
  from iteration[OF Cons.prems(1) this] have step: "if a = UNFINISHED then halfway st1 else ready st1"
    unfolding o by (simp split: if_splits)
  have rest: ?case if "a \<noteq> UNFINISHED" "run_forever once dflt pause ts stop' st1 = (st', e, ps')" for stop' ps'
    using Cons.IH[of st1 stop' ps'] that step Cons.prems(2) by simp
  show ?case
    using Cons.prems(1,3) o step rest
    by (cases a) (auto split: if_splits option.splits prod.splits)
qed auto

end

text \<open>A task that never waits inside an iteration is always ready.\<close>

locale plain_task = service_task once allowed ready "\<lambda>_. False"
  for once :: "'i \<Rightarrow> 's \<Rightarrow> 's \<times> 'r iteration_end" and allowed :: "'i \<Rightarrow> bool" and ready :: "'s \<Rightarrow> bool"
begin

lemma loop_stays_ready:
  "ready st \<Longrightarrow> list_all (\<lambda>t. allowed (t_input t)) ts \<Longrightarrow> run_forever once dflt pause ts stop st = (st', e, ps)
   \<Longrightarrow> ready st'"
  using loop_is_run by blast

end

section \<open>The loops\<close>

text \<open>The service is up and the worker idle.\<close>

definition service_at :: "surroundings \<Rightarrow> sys \<Rightarrow> limiter \<Rightarrow> db \<Rightarrow> bool" where
  "service_at o' x l d \<longleftrightarrow> reaches o' x d l P_IDLE \<and> db_ok d"

text \<open>What other tasks do between two answers is itself made of steps of the service.\<close>

definition service_work :: "surroundings \<Rightarrow> (db \<Rightarrow> db) \<Rightarrow> bool" where
  "service_work o' f \<longleftrightarrow> (\<forall>x l d. service_at o' x l d \<longrightarrow> service_at o' x l (f d))"

lemma service_batch:
  assumes "service_at o' x l d" shows "service_at o' x l (fst (process_pending_events faults n now d))"
  unfolding service_at_def
proof
  have at: "reaches o' x d l P_IDLE" and ok: "db_ok d" using assms by (simp_all add: service_at_def)
  show "reaches o' x (fst (process_pending_events faults n now d)) l P_IDLE"
    by (rule reaches_step[OF at, where lab = "BATCH faults n now"]) simp
  show "db_ok (fst (process_pending_events faults n now d))" by (rule process_pending_events_db_ok[OF ok])
qed

lemma service_maintain:
  assumes "service_at o' x l d" shows "service_at o' x l (fst (manager_requeue_stale (o_settings o') now d))"
  unfolding service_at_def
proof
  have at: "reaches o' x d l P_IDLE" and ok: "db_ok d" using assms by (simp_all add: service_at_def)
  show "reaches o' x (fst (manager_requeue_stale (o_settings o') now d)) l P_IDLE"
    by (rule reaches_step[OF at, where lab = "MAINTAIN now"]) simp
  show "db_ok (fst (manager_requeue_stale (o_settings o') now d))" by (rule evolves_db_ok[OF manager_requeue_evolves[OF ok]])
qed

lemma service_poll:
  assumes "service_at o' x l d" shows "service_at o' x l (fst (reconcile_apply (o_settings o') u now i st d))"
  unfolding service_at_def
proof
  have at: "reaches o' x d l P_IDLE" and ok: "db_ok d" using assms by (simp_all add: service_at_def)
  show "reaches o' x (fst (reconcile_apply (o_settings o') u now i st d)) l P_IDLE"
    by (rule reaches_step[OF at, where lab = "POLL i st u now"]) simp
  show "db_ok (fst (reconcile_apply (o_settings o') u now i st d))" by (rule reconcile_apply_db_ok[OF ok])
qed

lemma service_in_thread:
  assumes "service_at o' x l d" "service_at o' x l (fst (f d))"
  shows "service_at o' x l (fst (in_thread c storage f d))" "snd (in_thread c storage f d) \<noteq> UNFINISHED"
  using assms by (auto simp: in_thread_def split: prod.splits option.splits sum.splits)

interpretation event_runs: plain_task "event_run_once n" "\<lambda>_. True" "service_at o' x l" for n o' x l
  by unfold_locales
    (auto simp: event_run_once_def event_worker_process_def service_in_thread service_batch)

interpretation maintenance_runs: plain_task "maintain_iteration (o_settings o')" "\<lambda>_. True" "service_at o' x l"
  for o' x l
  by unfold_locales (auto simp: maintain_iteration_def service_in_thread service_maintain)

lemma service_reconcile:
  assumes "\<And>i. service_work o' (env i)" "service_at o' x l d"
  shows "service_at o' x l (snd (fst (reconcile_loop (o_settings o') get u now env ps n w d)))"
  using assms(2)
proof (induction ps arbitrary: n w d)
  case (Cons p ps)
  obtain k dm where p: "p = (k, dm)" by (cases p)
  have env: "service_at o' x l (env k d)" using assms(1) Cons.prems by (simp add: service_work_def)
  show ?case unfolding p
    by (rule reconcile_loop_turn[of "o_settings o'" get u now env k dm ps n w d])
      (use env service_poll[OF env] Cons.IH in simp_all)
qed simp

interpretation poll_runs: plain_task "poll_iteration (o_settings o') n get" "\<lambda>i. \<forall>k. service_work o' (pi_meanwhile i k)"
  "\<lambda>(w, d). service_at o' x l d" for o' n and get :: "'w \<Rightarrow> string \<Rightarrow> 'w \<times> http_reply" and x l
proof
  fix st :: "'w \<times> db" and i :: poll_input
  assume "case st of (w, d) \<Rightarrow> service_at o' x l d" "\<forall>k. service_work o' (pi_meanwhile i k)"
  then show "if snd (poll_iteration (o_settings o') n get i st) = UNFINISHED then False
      else case fst (poll_iteration (o_settings o') n get i st) of (w, d) \<Rightarrow> service_at o' x l d"
    using service_reconcile[of o' "pi_meanwhile i" x l "snd st" get "pi_draws i" "pi_times i" _ 0 "fst st"]
    by (auto simp: poll_iteration_def reconcile_once_def split_beta split: option.splits sum.splits)
qed

interpretation send_runs: service_task "dm_iteration (o_settings o') post" "\<lambda>_. True" "\<lambda>(w, l, d). service_at o' x l d"
  "\<lambda>(w, l, d). \<exists>c. reaches o' x d l (P_CLAIMED c)" for o' and post :: "'w \<Rightarrow> send_request \<Rightarrow> 'w \<times> http_reply" and x
proof
  fix st :: "'w \<times> limiter \<times> db" and i :: dm_input
  assume ready: "case st of (w, l, d) \<Rightarrow> service_at o' x l d"
  obtain w l d where st: "st = (w, l, d)" by (cases st)
  obtain w' l' d' r where run: "dm_run_once (o_settings o') post (di_run i) (w, l, d) = ((w', l', d'), r)"
    by (metis prod.collapse)
  have ok: "reaches o' x d l P_IDLE" "db_ok d" using ready by (simp_all add: st service_at_def)
  have "service_at o' x l' d' \<or> r = WAITING \<and> (\<exists>c. reaches o' x d' l' (P_CLAIMED c))"
    using worker_iteration_reaches[OF run ok] dm_run_once_db_ok[OF ok(2) run]
    by (auto simp: service_at_def split: if_splits)
  moreover have "r = WAITING \<longrightarrow> (\<exists>c. reaches o' x d' l' (P_CLAIMED c))"
    using worker_iteration_reaches[OF run ok] by auto
  ultimately show "if snd (dm_iteration (o_settings o') post i st) = UNFINISHED
      then case fst (dm_iteration (o_settings o') post i st) of (w, l, d) \<Rightarrow> \<exists>c. reaches o' x d l (P_CLAIMED c)
      else case fst (dm_iteration (o_settings o') post i st) of (w, l, d) \<Rightarrow> service_at o' x l d"
    using ready run by (auto simp: dm_iteration_def st split: run_result.splits option.splits)
qed


section \<open>The tasks of the process\<close>


text \<open>Webhooks may arrive while the poller waits for an answer.\<close>

lemma webhooks_are_service_work:
  "service_work o' (\<lambda>d. fst (receive_webhook (o_hmac o') (o_loads o') (o_fromisoformat o') (o_settings o')
     storage now body hdr d))"
  unfolding service_work_def service_at_def
proof (intro allI impI conjI)
  fix x l d
  let ?d = "fst (receive_webhook (o_hmac o') (o_loads o') (o_fromisoformat o') (o_settings o') storage now body hdr d)"
  assume at: "reaches o' x d l P_IDLE \<and> db_ok d"
  show "reaches o' x ?d l P_IDLE"
    by (rule reaches_step[OF at[THEN conjunct1], where lab = "DELIVERY storage now body hdr"]) simp
  show "db_ok ?d" using at by (simp add: receive_webhook_db_ok)
qed

definition demo_poll_turn :: "poll_input turn" where
  "demo_poll_turn = \<lparr>t_input = \<lparr>pi_storage = None, pi_draws = (\<lambda>_. 0), pi_times = (\<lambda>_. 9),
     pi_meanwhile = (\<lambda>_ d. fst (receive_webhook (o_hmac demo) (o_loads demo) (o_fromisoformat demo)
        (o_settings demo) None 9 ''a'' None d)), pi_cancel = None\<rparr>, t_stop = False, t_wait = W_TIMEOUT\<rparr>"


end
